theory Spec2Isabelle
  imports Main "HOL-Library.Word" "HOL-Library.Signed_Division"
begin

unbundle bit_operations_syntax

section \<open>Apple ANS NVMe host driver: data model\<close>

type_synonym u8 = "8 word"
type_synonym u16 = "16 word"
type_synonym u32 = "32 word"
type_synonym u64 = "64 word"

text \<open>A C \<open>int\<close>: 32 bits, two's complement; \<open>sint\<close> reads its value.\<close>

type_synonym s32 = "32 word"

text \<open>
  The driver owns two queues, \<open>dev->adminq\<close> and \<open>dev->ioq\<close>. A queue pointer of the
  source is a selector here, and every queue function takes the device state and the
  selector, since \<open>nvmeq->dev\<close> points back at the device that holds both queues.
\<close>

datatype qsel = ADMINQ | IOQ

text \<open>
  Modelled from the spec: \<open>struct nvme_command\<close> is declared in nvme.h, which is not part
  of the sources at hand. The spec fixes it as a 64-byte record with opcode, command tag,
  two 64-bit pointer fields and a length; the remaining fields fill the 64 bytes in the
  read/write view the driver uses (\<open>cmd->common\<close>, \<open>cmd->rw\<close>).
\<close>

record nvme_command =
  opcode :: u8
  cmd_flags :: u8
  command_id :: u16
  nsid :: u32
  rsvd2 :: u64
  metadata :: u64
  prp1 :: u64
  prp2 :: u64
  slba :: u64
  rw_length :: u16
  control :: u16
  dsmgmt :: u32
  reftag :: u32
  apptag :: u16
  appmask :: u16

text \<open>
  Modelled from the spec: \<open>struct nvme_completion\<close> (nvme.h), a 16-byte record with the
  result, the submission queue id, the command tag and a status whose bit 0 is the phase.
\<close>

record nvme_completion =
  cqe_result :: u64
  cqe_sq_head :: u16
  cqe_sq_id :: u16
  cqe_command_id :: u16
  cqe_status :: u16

text \<open>\<open>struct apple_nvmmu_tcb\<close>, 128 bytes; the arrays are lists of their elements.\<close>

record apple_nvmmu_tcb =
  tcb_opcode :: u8
  tcb_dma_flags :: u8
  tcb_command_id :: u8
  tcb_unk0 :: u8
  tcb_length :: u32
  tcb_unk1 :: "u64 list"
  tcb_prp1 :: u64
  tcb_prp2 :: u64
  tcb_unk2 :: "u64 list"
  tcb_aes_iv :: "u8 list"
  tcb_aes_unk :: "u8 list"

text \<open>The slot after \<open>memset(tcb, 0, sizeof(*tcb))\<close>.\<close>

definition tcb_zero :: apple_nvmmu_tcb where
  "tcb_zero = \<lparr>tcb_opcode = 0, tcb_dma_flags = 0, tcb_command_id = 0, tcb_unk0 = 0,
     tcb_length = 0, tcb_unk1 = replicate 2 0, tcb_prp1 = 0, tcb_prp2 = 0,
     tcb_unk2 = replicate 2 0, tcb_aes_iv = replicate 8 0, tcb_aes_unk = replicate 64 0\<rparr>"

definition APPLE_ANS2_TCB_DMA_FROM_DEVICE :: u8 where
  "APPLE_ANS2_TCB_DMA_FROM_DEVICE = push_bit 0 1"

definition APPLE_ANS2_TCB_DMA_TO_DEVICE :: u8 where
  "APPLE_ANS2_TCB_DMA_TO_DEVICE = push_bit 1 1"

definition NVMEQ_ENABLED :: nat where
  "NVMEQ_ENABLED = 0"

text \<open>
  \<open>struct apple_nvme_queue\<close>. The three buffers are memory reached by pointer arithmetic
  without a bounds check: \<open>cqes\<close> by entry index, \<open>sq_cmds\<close> by byte offset
  (\<open>tag << sqes\<close>), \<open>ans2_tcb\<close> by slot (\<open>tag * sizeof(struct apple_nvmmu_tcb)\<close>).
\<close>

record apple_nvme_queue =
  q_depth :: u32
  cq_head :: u16
  cq_phase :: u8
  sqes :: u8
  flags :: u64
  is_adminq :: bool
  cqes :: "nat \<Rightarrow> nvme_completion"
  sq_cmds :: "nat \<Rightarrow> nvme_command"
  ans2_tcb :: "nat \<Rightarrow> apple_nvmmu_tcb"

text \<open>
  What the device can observe, in program order: stores to the tracking table and to the
  submission ring (coherent DMA memory), register writes and register reads. The stores
  that build one tracking slot (the \<open>memset\<close> and the field assignments that follow it)
  are one \<open>TCB_STORE\<close>, carrying the slot as it is left.
\<close>

datatype mmio_reg =
  APPLE_NVMMU_TCB_INVAL | APPLE_NVMMU_TCB_STAT | ANS2_Q_DB qsel | CQ_DB qsel | NVME_REG_CSTS

datatype hw_access =
  TCB_STORE qsel nat apple_nvmmu_tcb
| SQ_STORE qsel nat nvme_command
| WRITEL mmio_reg u32
| READL mmio_reg

text \<open>
  Modelled from the spec: the controller lifecycle states of \<open>struct nvme_ctrl\<close> (nvme.h),
  "one of: uninitialized, connecting, live, resetting, deleting".
\<close>

datatype nvme_ctrl_state =
  NVME_CTRL_NEW | NVME_CTRL_LIVE | NVME_CTRL_RESETTING | NVME_CTRL_CONNECTING | NVME_CTRL_DELETING

text \<open>
  The abort command built by the timeout handler (the \<open>abort\<close> view of the command
  union: opcode, submission queue id, command id of the victim).
\<close>

record nvme_abort_cmd =
  abort_opcode :: u8
  abort_cid :: u16
  abort_sqid :: u16

text \<open>One entry of a DMA-mapped scatterlist: \<open>sg_dma_address\<close> and \<open>sg_dma_len\<close>.\<close>

record scatterlist =
  dma_address :: u64
  dma_length :: u32

record bio_vec =
  bv_page :: u64
  bv_len :: u32
  bv_offset :: u32

text \<open>
  \<open>struct apple_nvme_iod\<close>. \<open>iod_sg\<close> is the scatterlist table from its first entry to its
  end mark; \<open>iod_list\<close> is the array of chain page pointers that
  \<open>apple_nvme_iod_list\<close> finds behind the table, without the bound the allocation of
  the table gives it. A chain page is named by its DMA address, also where the source
  holds its kernel address.
\<close>

record apple_nvme_iod =
  iod_cmd :: nvme_command
  iod_aborted :: int
  iod_npages :: int
  iod_nents :: int
  iod_first_dma :: u64
  iod_dma_len :: u32
  iod_meta_dma :: u64
  iod_sg :: "scatterlist list"
  iod_list :: "nat \<Rightarrow> u64"

text \<open>The request as the submission path reads it: \<open>blk_rq_payload_bytes\<close>,
  \<open>blk_rq_nr_phys_segments\<close>, \<open>req_bvec\<close>, \<open>blk_integrity_rq\<close> and
  \<open>rq_integrity_vec\<close>.\<close>

record data_rq =
  payload_bytes :: u32
  nr_phys_segments :: u16
  rq_bvec :: bio_vec
  integrity_rq :: bool
  integrity_vec :: bio_vec

text \<open>
  The completion callbacks a request can carry in \<open>rq->end_io\<close>. The driver installs
  three: \<open>apple_abort_endio\<close> on the abort commands of the timeout handler, and the two
  queue-deletion callbacks; \<open>OTHER_END_IO\<close> stands for these two and for the callbacks
  of the NVMe core, whose bodies are not followed here.
\<close>

datatype rq_end_io = APPLE_ABORT_ENDIO | OTHER_END_IO

text \<open>
  A request of a tag set as the completion path reads it: what
  \<open>apple_nvme_common_complete_rq\<close> asks of the request, its \<open>struct apple_nvme_iod\<close>
  (the request's private data), and its completion callback (\<open>None\<close>: no callback).
  \<open>struct blk_mq_tag_set\<close> is the array of its requests, indexed by tag; the driver
  owns two, \<open>dev->tagset\<close> and \<open>dev->admin_tagset\<close>.
\<close>

record request =
  req_data :: data_rq
  req_iod :: apple_nvme_iod
  req_end_io :: "rq_end_io option"

record blk_mq_tag_set =
  rqs :: "request list"

text \<open>
  The calls the driver makes into the NVMe core, the block layer and the kernel, and the
  calls of its own device-level procedures \<open>apple_nvme_dev_disable\<close> (with its
  \<open>shutdown\<close> argument), whose bodies are not followed here. A request is named by its
  tag set and tag.
\<close>

datatype drv_call =
  APPLE_NVME_DEV_DISABLE bool
| NVME_RESET_CTRL
| DISABLE_IRQ
| ENABLE_IRQ
| NVME_CHANGE_CTRL_STATE nvme_ctrl_state
| BLK_EXECUTE_RQ_NOWAIT nat nvme_abort_cmd rq_end_io
| BLK_MQ_FREE_REQUEST qsel nat
| RQ_END_IO qsel nat
| NVME_COMPLETE_ASYNC_EVENT u16 u64
| NVME_COMPLETE_RQ qsel nat
| BLK_MQ_START_REQUEST
| NVME_CLEANUP_CMD
| MEMPOOL_ALLOC_SG
| MEMPOOL_FREE_SG
| DMA_UNMAP_SG
| DMA_UNMAP_PAGE u64 u32

text \<open>
  \<open>struct apple_nvme_dev\<close> with the parts of \<open>dev->ctrl\<close> the driver reads and writes.
  \<open>mmio\<close> is what a \<open>readl\<close> of each register returns; \<open>hw\<close> is the trace of
  device-visible accesses; \<open>warnings\<close> collects the \<open>dev_warn\<close> messages; \<open>calls\<close> is the
  trace of calls into the NVMe core, the block layer and the driver's own device-level
  procedures; \<open>reaped\<close> is a history variable: the completion entries handed to
  \<open>apple_nvme_handle_cqe\<close>, each with its ring index and the phase the queue had at
  that moment. The two tag sets hold the requests of the I/O queue and of the admin
  queue. A DMA pool is the list of the blocks it can still hand out (\<open>dma_pool_alloc\<close>
  takes the first, and fails on the empty list); \<open>prp_mem\<close> is the contents of the pool
  blocks, by DMA address and index of the 8-byte entry.
\<close>

record apple_nvme_dev =
  adminq :: apple_nvme_queue
  ioq :: apple_nvme_queue
  tagset :: blk_mq_tag_set
  admin_tagset :: blk_mq_tag_set
  adminq_online :: bool
  ioq_online :: bool
  ctrl_state :: nvme_ctrl_state
  abort_limit :: u32
  mmio :: "mmio_reg \<Rightarrow> u32"
  hw :: "hw_access list"
  warnings :: "string list"
  calls :: "drv_call list"
  reaped :: "(qsel \<times> u16 \<times> u8 \<times> nvme_completion) list"
  prp_page_pool :: "u64 list"
  prp_small_pool :: "u64 list"
  prp_mem :: "u64 \<Rightarrow> nat \<Rightarrow> u64"

definition get_q :: "apple_nvme_dev \<Rightarrow> qsel \<Rightarrow> apple_nvme_queue" where
  "get_q dev sel = (case sel of ADMINQ \<Rightarrow> adminq dev | IOQ \<Rightarrow> ioq dev)"

definition put_q :: "apple_nvme_dev \<Rightarrow> qsel \<Rightarrow> apple_nvme_queue \<Rightarrow> apple_nvme_dev" where
  "put_q dev sel q = (case sel of ADMINQ \<Rightarrow> dev\<lparr>adminq := q\<rparr> | IOQ \<Rightarrow> dev\<lparr>ioq := q\<rparr>)"

text \<open>A tag set is named by the selector of its queue; a request by its tag set and its tag.
  A store to a tag the tag set does not have changes nothing.\<close>

definition get_tagset :: "apple_nvme_dev \<Rightarrow> qsel \<Rightarrow> blk_mq_tag_set" where
  "get_tagset dev sel = (case sel of ADMINQ \<Rightarrow> admin_tagset dev | IOQ \<Rightarrow> tagset dev)"

definition put_tagset :: "apple_nvme_dev \<Rightarrow> qsel \<Rightarrow> blk_mq_tag_set \<Rightarrow> apple_nvme_dev" where
  "put_tagset dev sel ts =
     (case sel of ADMINQ \<Rightarrow> dev\<lparr>admin_tagset := ts\<rparr> | IOQ \<Rightarrow> dev\<lparr>tagset := ts\<rparr>)"

definition get_rq :: "apple_nvme_dev \<Rightarrow> qsel \<Rightarrow> nat \<Rightarrow> request" where
  "get_rq dev sel tag = rqs (get_tagset dev sel) ! tag"

definition put_rq :: "apple_nvme_dev \<Rightarrow> qsel \<Rightarrow> nat \<Rightarrow> request \<Rightarrow> apple_nvme_dev" where
  "put_rq dev sel tag rq =
     put_tagset dev sel ((get_tagset dev sel)\<lparr>rqs := (rqs (get_tagset dev sel))[tag := rq]\<rparr>)"

text \<open>
  The helpers of nvme.h and of the NVMe core that the driver calls are parameters of the
  model: \<open>nvme_tag_from_cid\<close>, \<open>nvme_is_write\<close>, \<open>nvme_is_aen_req\<close> (queue id and command
  id), \<open>nvme_find_rq\<close> (whether the tag set chosen by \<open>apple_nvme_queue_tagset\<close> holds a
  request for the command id) and the result of \<open>nvme_try_complete_req\<close>.
\<close>

record nvme_core =
  nvme_tag_from_cid :: "u16 \<Rightarrow> u32"
  nvme_is_write :: "nvme_command \<Rightarrow> bool"
  nvme_is_aen_req :: "int \<Rightarrow> u16 \<Rightarrow> bool"
  nvme_find_rq :: "qsel \<Rightarrow> u16 \<Rightarrow> bool"
  nvme_try_complete_req :: "u16 \<Rightarrow> bool"

section \<open>Tag tracking table and command submission\<close>

text \<open>\<open>apple_nvmmu_inval\<close>: zero the slot, write the tag to the invalidation register,
  read the status register back and warn when it is not zero.\<close>

definition apple_nvmmu_inval :: "apple_nvme_dev \<Rightarrow> qsel \<Rightarrow> u32 \<Rightarrow> apple_nvme_dev" where
  "apple_nvmmu_inval dev sel tag =
     (let nvmeq = get_q dev sel;
          nvmeq = nvmeq\<lparr>ans2_tcb := (ans2_tcb nvmeq)(unat tag := tcb_zero)\<rparr>;
          dev = put_q dev sel nvmeq;
          dev = dev\<lparr>hw := hw dev @ [TCB_STORE sel (unat tag) tcb_zero]\<rparr>;
          dev = dev\<lparr>hw := hw dev @ [WRITEL APPLE_NVMMU_TCB_INVAL tag]\<rparr>;
          stat = mmio dev APPLE_NVMMU_TCB_STAT;
          dev = dev\<lparr>hw := hw dev @ [READL APPLE_NVMMU_TCB_STAT]\<rparr>
      in if stat \<noteq> 0
         then dev\<lparr>warnings := warnings dev @ [''NVMMU TCB invalidation failed'']\<rparr>
         else dev)"

text \<open>\<open>apple_nvme_submit_cmd\<close>: fill the tracking slot of the command's tag, copy the
  command into the submission ring slot of that tag, write the tag to the doorbell.\<close>

definition apple_nvme_submit_cmd ::
  "nvme_core \<Rightarrow> apple_nvme_dev \<Rightarrow> qsel \<Rightarrow> nvme_command \<Rightarrow> apple_nvme_dev" where
  "apple_nvme_submit_cmd nc dev sel cmd =
     (let nvmeq = get_q dev sel;
          tag = nvme_tag_from_cid nc (command_id cmd);
          tcb = tcb_zero;
          tcb = tcb\<lparr>tcb_opcode := opcode cmd\<rparr>;
          tcb = tcb\<lparr>tcb_prp1 := prp1 cmd\<rparr>;
          tcb = tcb\<lparr>tcb_prp2 := prp2 cmd\<rparr>;
          tcb = tcb\<lparr>tcb_length := ucast (rw_length cmd)\<rparr>;
          tcb = tcb\<lparr>tcb_command_id := ucast tag\<rparr>;
          tcb = (if nvme_is_write nc cmd
                 then tcb\<lparr>tcb_dma_flags := APPLE_ANS2_TCB_DMA_TO_DEVICE\<rparr>
                 else tcb\<lparr>tcb_dma_flags := APPLE_ANS2_TCB_DMA_FROM_DEVICE\<rparr>);
          nvmeq = nvmeq\<lparr>ans2_tcb := (ans2_tcb nvmeq)(unat tag := tcb)\<rparr>;
          dev = put_q dev sel nvmeq;
          dev = dev\<lparr>hw := hw dev @ [TCB_STORE sel (unat tag) tcb]\<rparr>;
          off = unat (push_bit (unat (sqes nvmeq)) tag);
          nvmeq = nvmeq\<lparr>sq_cmds := (sq_cmds nvmeq)(off := cmd)\<rparr>;
          dev = put_q dev sel nvmeq;
          dev = dev\<lparr>hw := hw dev @ [SQ_STORE sel off cmd]\<rparr>
      in dev\<lparr>hw := hw dev @ [WRITEL (ANS2_Q_DB sel) tag]\<rparr>)"

section \<open>Descriptor chain pools\<close>

text \<open>
  Modelled from the spec: the controller page size \<open>NVME_CTRL_PAGE_SIZE\<close> of nvme.h (not
  part of the sources at hand), the "4096-aligned addressing unit".
\<close>

definition NVME_CTRL_PAGE_SIZE :: nat where
  "NVME_CTRL_PAGE_SIZE = 4096"

datatype pool_sel = PRP_SMALL_POOL | PRP_PAGE_POOL

text \<open>\<open>dma_pool_alloc\<close>: the block's DMA address and the device with the block taken,
  or \<open>None\<close> for the NULL pointer. \<open>dma_pool_free\<close> gives a block back.\<close>

definition dma_pool_alloc :: "apple_nvme_dev \<Rightarrow> pool_sel \<Rightarrow> (u64 \<times> apple_nvme_dev) option" where
  "dma_pool_alloc dev pool =
     (case pool of
        PRP_SMALL_POOL \<Rightarrow>
          (case prp_small_pool dev of [] \<Rightarrow> None
           | b # bs \<Rightarrow> Some (b, dev\<lparr>prp_small_pool := bs\<rparr>))
      | PRP_PAGE_POOL \<Rightarrow>
          (case prp_page_pool dev of [] \<Rightarrow> None
           | b # bs \<Rightarrow> Some (b, dev\<lparr>prp_page_pool := bs\<rparr>)))"

definition dma_pool_free :: "apple_nvme_dev \<Rightarrow> pool_sel \<Rightarrow> u64 \<Rightarrow> apple_nvme_dev" where
  "dma_pool_free dev pool b =
     (case pool of
        PRP_SMALL_POOL \<Rightarrow> dev\<lparr>prp_small_pool := b # prp_small_pool dev\<rparr>
      | PRP_PAGE_POOL \<Rightarrow> dev\<lparr>prp_page_pool := b # prp_page_pool dev\<rparr>)"

text \<open>\<open>apple_nvme_free_prps\<close>: the loop over the \<open>npages\<close> chain pages, from index
  \<open>i\<close>; each page goes back to the page pool, and its last entry is read as the DMA
  address of the next page.\<close>

fun free_prps_loop :: "nat \<Rightarrow> apple_nvme_iod \<Rightarrow> nat \<Rightarrow> u64 \<Rightarrow> apple_nvme_dev \<Rightarrow> apple_nvme_dev" where
  "free_prps_loop 0 iod i dma_addr dev = dev"
| "free_prps_loop (Suc n) iod i dma_addr dev =
     (let last_prp = NVME_CTRL_PAGE_SIZE div 8 - 1;
          prp_list = iod_list iod i;
          next_dma_addr = prp_mem dev prp_list last_prp;
          dev = dma_pool_free dev PRP_PAGE_POOL prp_list
      in free_prps_loop n iod (i + 1) next_dma_addr dev)"

definition apple_nvme_free_prps :: "apple_nvme_dev \<Rightarrow> apple_nvme_iod \<Rightarrow> apple_nvme_dev" where
  "apple_nvme_free_prps dev iod =
     free_prps_loop (nat (iod_npages iod)) iod 0 (iod_first_dma iod) dev"

text \<open>\<open>apple_nvme_unmap_data\<close>.\<close>

definition apple_nvme_unmap_data :: "apple_nvme_dev \<Rightarrow> apple_nvme_iod \<Rightarrow> apple_nvme_dev" where
  "apple_nvme_unmap_data dev iod =
     (if iod_dma_len iod \<noteq> 0
      then dev\<lparr>calls := calls dev @ [DMA_UNMAP_PAGE (iod_first_dma iod) (iod_dma_len iod)]\<rparr>
      else
       (let dev = (if iod_nents iod = 0
                   then dev\<lparr>warnings := warnings dev @ [''WARN_ON_ONCE(!iod->nents)'']\<rparr>
                   else dev);
            dev = dev\<lparr>calls := calls dev @ [DMA_UNMAP_SG]\<rparr>;
            dev = (if iod_npages iod = 0
                   then dma_pool_free dev PRP_SMALL_POOL (iod_list iod 0)
                   else apple_nvme_free_prps dev iod)
        in dev\<lparr>calls := calls dev @ [MEMPOOL_FREE_SG]\<rparr>))"

section \<open>Completion ring\<close>

text \<open>\<open>apple_nvme_cqe_pending\<close>: the phase bit of the entry at the head against the
  queue's phase.\<close>

definition apple_nvme_cqe_pending :: "apple_nvme_queue \<Rightarrow> bool" where
  "apple_nvme_cqe_pending nvmeq =
     (let hcqe = cqes nvmeq (unat (cq_head nvmeq))
      in ucast (cqe_status hcqe AND 1) = (ucast (cq_phase nvmeq) :: u32))"

text \<open>\<open>apple_nvme_ring_cq_doorbell\<close>.\<close>

definition apple_nvme_ring_cq_doorbell :: "apple_nvme_dev \<Rightarrow> qsel \<Rightarrow> apple_nvme_dev" where
  "apple_nvme_ring_cq_doorbell dev sel =
     dev\<lparr>hw := hw dev @ [WRITEL (CQ_DB sel) (ucast (cq_head (get_q dev sel)))]\<rparr>"

definition apple_nvme_queue_tagset :: "apple_nvme_queue \<Rightarrow> qsel" where
  "apple_nvme_queue_tagset nvmeq = (if is_adminq nvmeq then ADMINQ else IOQ)"

definition apple_nvme_queue_id :: "apple_nvme_queue \<Rightarrow> int" where
  "apple_nvme_queue_id nvmeq = (if is_adminq nvmeq then 0 else 1)"

text \<open>
  Modelled from the spec: \<open>nvme_find_rq\<close> of nvme.h, "look up the Outstanding Request by
  tag; if none found, log and continue". The request is the one the tag set holds at the
  tag of the command id; there is none (the NULL pointer) when the tag set does not have
  that tag, or when the NVMe core does not find the request outstanding under this
  command id (the answer \<open>nvme_find_rq\<close> of the model's parameters).
\<close>

definition find_rq :: "nvme_core \<Rightarrow> apple_nvme_dev \<Rightarrow> qsel \<Rightarrow> u16 \<Rightarrow> nat option" where
  "find_rq nc dev sel cid =
     (let tag = unat (nvme_tag_from_cid nc cid)
      in if nvme_find_rq nc sel cid \<and> tag < length (rqs (get_tagset dev sel))
         then Some tag else None)"

text \<open>
  Modelled from the spec: \<open>blk_mq_free_request\<close> of the block dispatch layer, which "owns
  request allocation/tagging": the request goes back to its tag set, and carries no
  completion callback until the layer hands it out again.
\<close>

definition blk_mq_free_request :: "apple_nvme_dev \<Rightarrow> qsel \<Rightarrow> nat \<Rightarrow> apple_nvme_dev" where
  "blk_mq_free_request dev sel tag =
     (let dev = put_rq dev sel tag ((get_rq dev sel tag)\<lparr>req_end_io := None\<rparr>)
      in dev\<lparr>calls := calls dev @ [BLK_MQ_FREE_REQUEST sel tag]\<rparr>)"

text \<open>\<open>apple_abort_endio\<close>, the completion callback of an abort command; \<open>req\<close> is the
  request with this tag in this tag set.\<close>

definition apple_abort_endio :: "apple_nvme_dev \<Rightarrow> qsel \<Rightarrow> nat \<Rightarrow> apple_nvme_dev" where
  "apple_abort_endio dev sel tag =
     (let dev = dev\<lparr>warnings := warnings dev @ [''Abort status'']\<rparr>;
          dev = dev\<lparr>abort_limit := abort_limit dev + 1\<rparr>
      in blk_mq_free_request dev sel tag)"

text \<open>
  Modelled from the spec: \<open>nvme_complete_rq\<close> of the NVMe core, the last step of
  "deliver status/result to the request, release descriptor-chain resources, and finalize
  the request". Finalizing ends the request: the block dispatch layer "receives back
  completion callbacks", so the callback the request carries runs, once; a request
  without a callback is freed. For an abort command this is the "abort completion" on
  which the abort budget "is incremented back".
\<close>

definition nvme_complete_rq :: "apple_nvme_dev \<Rightarrow> qsel \<Rightarrow> nat \<Rightarrow> apple_nvme_dev" where
  "nvme_complete_rq dev sel tag =
     (let dev = dev\<lparr>calls := calls dev @ [NVME_COMPLETE_RQ sel tag]\<rparr>
      in case req_end_io (get_rq dev sel tag) of
           None \<Rightarrow> blk_mq_free_request dev sel tag
         | Some APPLE_ABORT_ENDIO \<Rightarrow> apple_abort_endio dev sel tag
         | Some OTHER_END_IO \<Rightarrow> dev\<lparr>calls := calls dev @ [RQ_END_IO sel tag]\<rparr>)"

text \<open>\<open>apple_nvme_common_complete_rq\<close>, on the request with this tag in this tag set.\<close>

definition apple_nvme_common_complete_rq :: "apple_nvme_dev \<Rightarrow> qsel \<Rightarrow> nat \<Rightarrow> apple_nvme_dev" where
  "apple_nvme_common_complete_rq dev sel tag =
     (let req = get_rq dev sel tag;
          iod = req_iod req;
          dev = (if integrity_rq (req_data req)
                 then dev\<lparr>calls := calls dev @
                        [DMA_UNMAP_PAGE (iod_meta_dma iod) (bv_len (integrity_vec (req_data req)))]\<rparr>
                 else dev);
          dev = (if nr_phys_segments (req_data req) \<noteq> 0 then apple_nvme_unmap_data dev iod
                 else dev)
      in nvme_complete_rq dev sel tag)"

text \<open>\<open>apple_nvme_handle_cqe\<close>: invalidate the tracking slot of the entry's tag, then hand
  the completion to the asynchronous event handler or to its request.\<close>

definition apple_nvme_handle_cqe ::
  "nvme_core \<Rightarrow> apple_nvme_dev \<Rightarrow> qsel \<Rightarrow> u16 \<Rightarrow> apple_nvme_dev" where
  "apple_nvme_handle_cqe nc dev sel idx =
     (let nvmeq = get_q dev sel;
          cqe = cqes nvmeq (unat idx);
          dev = dev\<lparr>reaped := reaped dev @ [(sel, idx, cq_phase nvmeq, cqe)]\<rparr>;
          cid = cqe_command_id cqe;
          dev = apple_nvmmu_inval dev sel (nvme_tag_from_cid nc cid)
      in if nvme_is_aen_req nc (apple_nvme_queue_id nvmeq) cid
         then dev\<lparr>calls := calls dev @ [NVME_COMPLETE_ASYNC_EVENT (cqe_status cqe) (cqe_result cqe)]\<rparr>
         else (case find_rq nc dev (apple_nvme_queue_tagset nvmeq) cid of
                 None \<Rightarrow> dev\<lparr>warnings := warnings dev @ [''invalid id completed on queue'']\<rparr>
               | Some req \<Rightarrow>
                   if \<not> nvme_try_complete_req nc cid
                   then apple_nvme_common_complete_rq dev (apple_nvme_queue_tagset nvmeq) req
                   else dev))"

text \<open>\<open>apple_nvme_update_cq_head\<close>: \<open>tmp\<close> is a \<open>u32\<close>, the head a \<open>u16\<close>.\<close>

definition apple_nvme_update_cq_head :: "apple_nvme_queue \<Rightarrow> apple_nvme_queue" where
  "apple_nvme_update_cq_head nvmeq =
     (let tmp = (ucast (cq_head nvmeq) :: u32) + 1
      in if tmp = q_depth nvmeq
         then nvmeq\<lparr>cq_head := 0, cq_phase := cq_phase nvmeq XOR 1\<rparr>
         else nvmeq\<lparr>cq_head := ucast tmp\<rparr>)"

text \<open>
  The loop of \<open>nvme_process_cq\<close>. The device fills the ring while the host drains it,
  so the loop has no bound of its own: it runs on fuel, one unit for each entry. The
  result says whether the loop left through its condition (\<open>True\<close>) or was cut by the
  fuel, and carries \<open>found\<close> and the state reached in both cases.
\<close>

fun nvme_process_cq_loop ::
  "nat \<Rightarrow> nvme_core \<Rightarrow> qsel \<Rightarrow> int \<times> apple_nvme_dev \<Rightarrow> bool \<times> int \<times> apple_nvme_dev" where
  "nvme_process_cq_loop 0 nc sel (found, dev) =
     (\<not> apple_nvme_cqe_pending (get_q dev sel), found, dev)"
| "nvme_process_cq_loop (Suc n) nc sel (found, dev) =
     (if apple_nvme_cqe_pending (get_q dev sel)
      then (let found = found + 1;
                dev = apple_nvme_handle_cqe nc dev sel (cq_head (get_q dev sel));
                dev = put_q dev sel (apple_nvme_update_cq_head (get_q dev sel))
            in nvme_process_cq_loop n nc sel (found, dev))
      else (True, found, dev))"

text \<open>\<open>nvme_process_cq\<close>: \<open>None\<close> when the fuel did not suffice.\<close>

definition nvme_process_cq ::
  "nat \<Rightarrow> nvme_core \<Rightarrow> apple_nvme_dev \<Rightarrow> qsel \<Rightarrow> (int \<times> apple_nvme_dev) option" where
  "nvme_process_cq fuel nc dev sel =
     (case nvme_process_cq_loop fuel nc sel (0, dev) of
        (False, _, _) \<Rightarrow> None
      | (True, found, dev) \<Rightarrow>
          Some (found, if found \<noteq> 0 then apple_nvme_ring_cq_doorbell dev sel else dev))"

text \<open>\<open>apple_nvme_poll_irqdisable\<close>: the drain between \<open>disable_irq\<close> and
  \<open>enable_irq\<close>.\<close>

definition apple_nvme_poll_irqdisable ::
  "nat \<Rightarrow> nvme_core \<Rightarrow> apple_nvme_dev \<Rightarrow> qsel \<Rightarrow> apple_nvme_dev option" where
  "apple_nvme_poll_irqdisable fuel nc dev sel =
     (let dev = dev\<lparr>calls := calls dev @ [DISABLE_IRQ]\<rparr>
      in case nvme_process_cq fuel nc dev sel of
           None \<Rightarrow> None
         | Some (found, dev) \<Rightarrow> Some (dev\<lparr>calls := calls dev @ [ENABLE_IRQ]\<rparr>))"

section \<open>Timeout handling\<close>

datatype blk_eh_timer_return = BLK_EH_DONE | BLK_EH_RESET_TIMER

text \<open>
  Modelled from the spec: two constants of the NVMe headers (not part of the sources at
  hand): the "fatal condition" bit of the controller status register and the opcode of
  the "hardware abort command".
\<close>

definition NVME_CSTS_CFS :: u32 where
  "NVME_CSTS_CFS = push_bit 1 1"

definition nvme_admin_abort_cmd :: u8 where
  "nvme_admin_abort_cmd = 0x08"

definition NVME_REQ_CANCELLED :: u8 where
  "NVME_REQ_CANCELLED = push_bit 0 1"

text \<open>
  The request as the timeout handler sees it: its tag, the flags of \<open>nvme_req(req)\<close>,
  and of its \<open>struct apple_nvme_iod\<close> the queue and the \<open>aborted\<close> mark.
\<close>

record timeout_rq =
  rq_tag :: int
  rq_nvme_flags :: u8
  rq_nvmeq :: qsel
  rq_aborted :: int

text \<open>
  What the handler learns from outside: whether the block layer reports the request
  completed after the forced drain (\<open>blk_mq_request_completed\<close>), and the request
  \<open>nvme_alloc_request\<close> returns on the admin queue, with its tag in the admin tag set
  (\<open>None\<close>: \<open>IS_ERR\<close>).
\<close>

record timeout_env =
  blk_mq_request_completed :: bool
  nvme_alloc_request :: "(nat \<times> request) option"

text \<open>
  Modelled from the spec: \<open>blk_execute_rq_nowait\<close> of the block dispatch layer on a
  request of the admin queue, "issue a hardware abort command for its tag
  asynchronously": the request enters its tag set carrying the completion callback it is
  issued with, and the layer submits it in its own time.
\<close>

definition blk_execute_rq_nowait ::
  "apple_nvme_dev \<Rightarrow> nat \<Rightarrow> request \<Rightarrow> nvme_abort_cmd \<Rightarrow> rq_end_io \<Rightarrow> apple_nvme_dev" where
  "blk_execute_rq_nowait dev tag rq cmd done =
     (let dev = put_rq dev ADMINQ tag (rq\<lparr>req_end_io := Some done\<rparr>)
      in dev\<lparr>calls := calls dev @ [BLK_EXECUTE_RQ_NOWAIT tag cmd done]\<rparr>)"

text \<open>\<open>apple_nvme_should_reset\<close>.\<close>

definition apple_nvme_should_reset :: "apple_nvme_dev \<Rightarrow> u32 \<Rightarrow> bool" where
  "apple_nvme_should_reset dev csts =
     (case ctrl_state dev of
        NVME_CTRL_RESETTING \<Rightarrow> False
      | NVME_CTRL_CONNECTING \<Rightarrow> False
      | _ \<Rightarrow> if csts AND NVME_CSTS_CFS = 0 then False else True)"

text \<open>
  \<open>apple_nvme_timeout\<close>. \<open>atomic_dec_return\<close> and \<open>atomic_inc\<close> work on the 32-bit
  counter \<open>ctrl.abort_limit\<close>, read as signed. The forced drain is run
  (\<open>apple_nvme_poll_irqdisable\<close>, on the fuel of its loop: \<open>None\<close> when the drain does
  not come to an end); the device disable and the controller reset are recorded in
  \<open>calls\<close>. What follows the drain reads the device as the drain left it. The store
  \<open>abort_req->end_io_data = NULL\<close> writes a field that nothing here reads, and has no
  counterpart.
\<close>

definition timeout_disable_shutdown ::
  "apple_nvme_dev \<Rightarrow> timeout_rq \<Rightarrow> blk_eh_timer_return \<times> apple_nvme_dev \<times> timeout_rq" where
  "timeout_disable_shutdown dev req =
     (let dev = dev\<lparr>warnings := warnings dev @ [''timeout, disable controller'']\<rparr>;
          req = req\<lparr>rq_nvme_flags := rq_nvme_flags req OR NVME_REQ_CANCELLED\<rparr>;
          dev = dev\<lparr>calls := calls dev @ [APPLE_NVME_DEV_DISABLE True]\<rparr>
      in (BLK_EH_DONE, dev, req))"

definition apple_nvme_timeout ::
  "nat \<Rightarrow> nvme_core \<Rightarrow> timeout_env \<Rightarrow> apple_nvme_dev \<Rightarrow> timeout_rq \<Rightarrow>
     (blk_eh_timer_return \<times> apple_nvme_dev \<times> timeout_rq) option" where
  "apple_nvme_timeout fuel nc env dev req =
     (let csts = mmio dev NVME_REG_CSTS;
          dev = dev\<lparr>hw := hw dev @ [READL NVME_REG_CSTS]\<rparr>
      in if apple_nvme_should_reset dev csts
         then (let dev = dev\<lparr>warnings := warnings dev @ [''controller is down; will reset'']\<rparr>;
                   dev = dev\<lparr>calls := calls dev @ [APPLE_NVME_DEV_DISABLE False]\<rparr>;
                   dev = dev\<lparr>calls := calls dev @ [NVME_RESET_CTRL]\<rparr>
               in Some (BLK_EH_DONE, dev, req))
         else
          (case apple_nvme_poll_irqdisable fuel nc dev (rq_nvmeq req) of
             None \<Rightarrow> None
           | Some dev \<Rightarrow>
              if blk_mq_request_completed env
              then Some (BLK_EH_DONE,
                         dev\<lparr>warnings := warnings dev @ [''timeout, completion polled'']\<rparr>, req)
              else
               (case ctrl_state dev of
                  NVME_CTRL_CONNECTING \<Rightarrow>
                    (let dev = dev\<lparr>calls := calls dev @ [NVME_CHANGE_CTRL_STATE NVME_CTRL_DELETING],
                                   ctrl_state := NVME_CTRL_DELETING\<rparr>
                     in Some (timeout_disable_shutdown dev req))
                | NVME_CTRL_DELETING \<Rightarrow> Some (timeout_disable_shutdown dev req)
                | NVME_CTRL_RESETTING \<Rightarrow> Some (BLK_EH_RESET_TIMER, dev, req)
                | _ \<Rightarrow>
                   if is_adminq (get_q dev (rq_nvmeq req)) \<or> rq_aborted req \<noteq> 0
                   then (let dev = dev\<lparr>warnings := warnings dev @ [''timeout, reset controller'']\<rparr>;
                             req = req\<lparr>rq_nvme_flags := rq_nvme_flags req OR NVME_REQ_CANCELLED\<rparr>;
                             dev = dev\<lparr>calls := calls dev @ [APPLE_NVME_DEV_DISABLE False]\<rparr>;
                             dev = dev\<lparr>calls := calls dev @ [NVME_RESET_CTRL]\<rparr>
                         in Some (BLK_EH_DONE, dev, req))
                   else
                    (let dev = dev\<lparr>abort_limit := abort_limit dev - 1\<rparr>
                     in if sint (abort_limit dev) < 0
                        then Some (BLK_EH_RESET_TIMER,
                                   dev\<lparr>abort_limit := abort_limit dev + 1\<rparr>, req)
                        else
                         (let req = req\<lparr>rq_aborted := 1\<rparr>;
                              cmd = \<lparr>abort_opcode = nvme_admin_abort_cmd,
                                     abort_cid = word_of_int (rq_tag req), abort_sqid = 1\<rparr>;
                              dev = dev\<lparr>warnings := warnings dev @ [''timeout, aborting'']\<rparr>
                          in case nvme_alloc_request env of
                               None \<Rightarrow>
                                 Some (BLK_EH_RESET_TIMER,
                                       dev\<lparr>abort_limit := abort_limit dev + 1\<rparr>, req)
                             | Some (tag, abort_req) \<Rightarrow>
                                 Some (BLK_EH_RESET_TIMER,
                                       blk_execute_rq_nowait dev tag abort_req cmd APPLE_ABORT_ENDIO,
                                       req))))))"

section \<open>Descriptor chain builder\<close>

text \<open>The kernel's \<open>DMA_MAPPING_ERROR\<close>, all ones, and \<open>dma_mapping_error\<close>.\<close>

definition DMA_MAPPING_ERROR :: u64 where
  "DMA_MAPPING_ERROR = - 1"

definition dma_mapping_error :: "u64 \<Rightarrow> bool" where
  "dma_mapping_error a = (a = DMA_MAPPING_ERROR)"

datatype blk_status = BLK_STS_OK | BLK_STS_RESOURCE | BLK_STS_IOERR | BLK_STS_OTHER u8

text \<open>
  The answers of the kernel services the submission path calls: \<open>dma_map_bvec\<close>;
  whether \<open>mempool_alloc\<close> returns a table; the table as \<open>blk_rq_map_sg\<close> and
  \<open>dma_map_sg_attrs\<close> leave it, with the two counts they return;
  \<open>nvme_check_ready\<close>, the status of \<open>nvme_fail_nonready_command\<close>, and the status and
  the command of \<open>nvme_setup_cmd\<close>.
\<close>

record submit_env =
  dma_map_bvec :: "bio_vec \<Rightarrow> u64"
  mempool_alloc_ok :: bool
  mapped_sg :: "scatterlist list"
  blk_rq_map_sg :: int
  dma_map_sg_attrs :: int
  nvme_check_ready :: bool
  nvme_fail_nonready_command :: blk_status
  nvme_setup_cmd_status :: blk_status
  nvme_setup_cmd :: nvme_command

text \<open>
  The state of the loop of \<open>apple_nvme_setup_prps\<close>: the device (pools and chain
  memory), the iod, the pool in use, and the locals \<open>prp_list\<close>, \<open>i\<close>, \<open>dma_len\<close>,
  \<open>dma_addr\<close>, \<open>length\<close> and \<open>sg\<close> (the entry \<open>sg\<close> points at and those behind it).
  \<open>length\<close> and \<open>dma_len\<close> are C \<open>int\<close>s: 32-bit words whose arithmetic wraps,
  read as signed (\<open>sint\<close>) where the code compares them.
\<close>

record prp_state =
  ps_dev :: apple_nvme_dev
  ps_iod :: apple_nvme_iod
  ps_pool :: pool_sel
  ps_prp_list :: u64
  ps_i :: nat
  ps_dma_len :: s32
  ps_dma_addr :: u64
  ps_length :: s32
  ps_sg :: "scatterlist list"

text \<open>The block \<open>if (i == NVME_CTRL_PAGE_SIZE >> 3)\<close>: a full page hands its last
  entry to a new page and keeps the new page's address in its place. \<open>None\<close> when the
  pool is empty.\<close>

definition prp_next_page :: "prp_state \<Rightarrow> prp_state option" where
  "prp_next_page s =
     (if ps_i s = NVME_CTRL_PAGE_SIZE div 8
      then (case dma_pool_alloc (ps_dev s) (ps_pool s) of
              None \<Rightarrow> None
            | Some (prp_dma, dev) \<Rightarrow>
               (let old_prp_list = ps_prp_list s;
                    iod = ps_iod s;
                    iod = iod\<lparr>iod_list := (iod_list iod)(nat (iod_npages iod) := prp_dma),
                              iod_npages := iod_npages iod + 1\<rparr>;
                    mem = prp_mem dev;
                    mem = mem(prp_dma := (mem prp_dma)(0 := mem old_prp_list (ps_i s - 1)));
                    mem = mem(old_prp_list := (mem old_prp_list)(ps_i s - 1 := prp_dma))
                in Some (s\<lparr>ps_dev := dev\<lparr>prp_mem := mem\<rparr>, ps_iod := iod,
                            ps_prp_list := prp_dma, ps_i := 1\<rparr>)))
      else Some s)"

text \<open>The four statements that store one entry and step to the next controller page.\<close>

definition prp_store_entry :: "prp_state \<Rightarrow> prp_state" where
  "prp_store_entry s =
     (let dev = ps_dev s;
          mem = prp_mem dev;
          mem = mem(ps_prp_list s := (mem (ps_prp_list s))(ps_i s := ps_dma_addr s))
      in s\<lparr>ps_dev := dev\<lparr>prp_mem := mem\<rparr>,
           ps_i := ps_i s + 1,
           ps_dma_len := ps_dma_len s - of_nat NVME_CTRL_PAGE_SIZE,
           ps_dma_addr := ps_dma_addr s + of_nat NVME_CTRL_PAGE_SIZE,
           ps_length := ps_length s - of_nat NVME_CTRL_PAGE_SIZE\<rparr>)"

text \<open>
  The \<open>for (;;)\<close> loop. It returns the status it leaves with (\<open>BLK_STS_OK\<close> at
  \<open>break\<close>, \<open>BLK_STS_RESOURCE\<close> through \<open>free_prps\<close>, \<open>BLK_STS_IOERR\<close> through
  \<open>bad_sgl\<close>) and the state; \<open>None\<close> when \<open>sg_next\<close> returns NULL and the loop
  dereferences it.
\<close>

function prp_fill :: "prp_state \<Rightarrow> (blk_status \<times> prp_state) option" where
  "prp_fill s =
     (case prp_next_page s of
        None \<Rightarrow> Some (BLK_STS_RESOURCE, s\<lparr>ps_dev := apple_nvme_free_prps (ps_dev s) (ps_iod s)\<rparr>)
      | Some s1 \<Rightarrow>
         (let s2 = prp_store_entry s1
          in if sint (ps_length s2) \<le> 0 then Some (BLK_STS_OK, s2)
             else if sint (ps_dma_len s2) > 0 then prp_fill s2
             else if sint (ps_dma_len s2) < 0 then Some (BLK_STS_IOERR, s2)
             else (case tl (ps_sg s2) of
                     [] \<Rightarrow> None
                   | sg # rest \<Rightarrow>
                       prp_fill (s2\<lparr>ps_sg := sg # rest, ps_dma_addr := dma_address sg,
                                    ps_dma_len := dma_length sg\<rparr>))))"
  by pat_completeness auto
termination
proof (relation "measure (\<lambda>s. unat (ps_length s))")
  show "wf (measure (\<lambda>s. unat (ps_length s)))" by simp
next
  fix s s1 s2
  assume a: "prp_next_page s = Some s1" "s2 = prp_store_entry s1" "\<not> sint (ps_length s2) \<le> 0"
  have "ps_length s1 = ps_length s"
    using a(1) by (auto simp: prp_next_page_def Let_def split: if_splits option.splits)
  then have l: "ps_length s2 = ps_length s - 4096"
    using a(2) by (simp add: prp_store_entry_def Let_def NVME_CTRL_PAGE_SIZE_def)
  have p: "0 < sint (ps_length s - 4096)" using a(3) l by simp
  have r: "sint (ps_length s - 4096) < 2 ^ 31"
    using sint_range_size [of "ps_length s - 4096"] by (simp add: word_size)
  have "uint (ps_length s - 4096) = sint (ps_length s - 4096)"
    using p r by (simp add: uint_sint take_bit_int_eq_self)
  then have "int (unat (ps_length s - 4096)) < int (2 ^ 31)" using r by simp
  then have u: "unat (ps_length s - 4096) < 2 ^ 31" by (simp only: of_nat_less_iff)
  have "unat (ps_length s - 4096 + 4096) = unat (ps_length s - 4096) + unat (4096 :: s32)"
    using u by (intro unat_add_lem [THEN iffD1]) simp
  then have d: "unat (ps_length s) = unat (ps_length s - 4096) + 4096" by simp
  show "(s2, s) \<in> measure (\<lambda>s. unat (ps_length s))"
    using d l by simp
  fix sg rest
  show "(s2\<lparr>ps_sg := sg # rest, ps_dma_addr := dma_address sg,
             ps_dma_len := dma_length sg\<rparr>, s) \<in> measure (\<lambda>s. unat (ps_length s))"
    using d l by simp
qed

declare prp_fill.simps [simp del]

text \<open>The label \<open>done\<close> of \<open>apple_nvme_setup_prps\<close>.\<close>

definition setup_prps_done :: "apple_nvme_dev \<Rightarrow> apple_nvme_iod \<Rightarrow> blk_status \<times> apple_nvme_dev \<times> apple_nvme_iod" where
  "setup_prps_done dev iod =
     (BLK_STS_OK, dev,
      iod\<lparr>iod_cmd := (iod_cmd iod)\<lparr>prp1 := dma_address (hd (iod_sg iod)),
                                    prp2 := iod_first_dma iod\<rparr>\<rparr>)"

text \<open>
  \<open>apple_nvme_setup_prps\<close>. \<open>None\<close> when the scatterlist ends where the code reads an
  entry. The locals \<open>length\<close>, \<open>dma_len\<close> and \<open>offset\<close> are C \<open>int\<close>s, and so is
  the page size in the expressions they meet: the subtractions and the addition inside
  \<open>DIV_ROUND_UP\<close> wrap at 32 bits; the division is the one of C, which rounds towards
  zero (\<open>sdiv\<close>), and its quotient \<open>nprps\<close> needs no wrap. The \<open>int\<close> added to
  \<open>dma_addr\<close> is sign-extended to 64 bits.
\<close>

definition apple_nvme_setup_prps ::
  "apple_nvme_dev \<Rightarrow> data_rq \<Rightarrow> apple_nvme_iod \<Rightarrow> (blk_status \<times> apple_nvme_dev \<times> apple_nvme_iod) option" where
  "apple_nvme_setup_prps dev req iod =
     (case iod_sg iod of
        [] \<Rightarrow> None
      | sg # rest \<Rightarrow>
         (let length = (payload_bytes req :: s32);
              dma_len = (dma_length sg :: s32);
              dma_addr = dma_address sg;
              offset = (ucast (dma_addr AND (of_nat NVME_CTRL_PAGE_SIZE - 1)) :: s32);
              length = length - (of_nat NVME_CTRL_PAGE_SIZE - offset)
          in if sint length \<le> 0 then Some (setup_prps_done dev (iod\<lparr>iod_first_dma := 0\<rparr>))
             else
              (let dma_len = dma_len - (of_nat NVME_CTRL_PAGE_SIZE - offset)
               in case (if dma_len \<noteq> 0
                        then Some (sg # rest,
                                   dma_addr + scast (of_nat NVME_CTRL_PAGE_SIZE - offset), dma_len)
                        else (case rest of
                                [] \<Rightarrow> None
                              | sg # rest \<Rightarrow>
                                  Some (sg # rest, dma_address sg, dma_length sg))) of
                    None \<Rightarrow> None
                  | Some (sgs, dma_addr, dma_len) \<Rightarrow>
                     if sint length \<le> int NVME_CTRL_PAGE_SIZE
                     then Some (setup_prps_done dev (iod\<lparr>iod_first_dma := dma_addr\<rparr>))
                     else
                      (let nprps = sint (length + of_nat NVME_CTRL_PAGE_SIZE - 1)
                                     sdiv int NVME_CTRL_PAGE_SIZE;
                           pool = (if nprps \<le> 256 div 8 then PRP_SMALL_POOL else PRP_PAGE_POOL);
                           iod = (if nprps \<le> 256 div 8 then iod\<lparr>iod_npages := 0\<rparr>
                                  else iod\<lparr>iod_npages := 1\<rparr>)
                       in case dma_pool_alloc dev pool of
                            None \<Rightarrow>
                              Some (BLK_STS_RESOURCE, dev,
                                    iod\<lparr>iod_first_dma := dma_addr, iod_npages := - 1\<rparr>)
                          | Some (prp_dma, dev) \<Rightarrow>
                             (let iod = iod\<lparr>iod_list := (iod_list iod)(0 := prp_dma),
                                            iod_first_dma := prp_dma\<rparr>
                              in case prp_fill \<lparr>ps_dev = dev, ps_iod = iod, ps_pool = pool,
                                                ps_prp_list = prp_dma, ps_i = 0,
                                                ps_dma_len = dma_len, ps_dma_addr = dma_addr,
                                                ps_length = length, ps_sg = sgs\<rparr> of
                                   None \<Rightarrow> None
                                 | Some (st, s) \<Rightarrow>
                                     if st = BLK_STS_OK
                                     then Some (setup_prps_done (ps_dev s) (ps_iod s))
                                     else if st = BLK_STS_IOERR
                                     then Some (st, (ps_dev s)\<lparr>warnings := warnings (ps_dev s)
                                                       @ [''Invalid SGL for payload'']\<rparr>, ps_iod s)
                                     else Some (st, ps_dev s, ps_iod s))))))"

text \<open>\<open>apple_nvme_setup_prp_simple\<close>: \<open>offset\<close> and \<open>first_prp_len\<close> are
  \<open>unsigned int\<close>.\<close>

definition apple_nvme_setup_prp_simple ::
  "submit_env \<Rightarrow> apple_nvme_dev \<Rightarrow> apple_nvme_iod \<Rightarrow> bio_vec \<Rightarrow> blk_status \<times> apple_nvme_dev \<times> apple_nvme_iod" where
  "apple_nvme_setup_prp_simple env dev iod bv =
     (let offset = bv_offset bv AND (of_nat NVME_CTRL_PAGE_SIZE - 1);
          first_prp_len = of_nat NVME_CTRL_PAGE_SIZE - offset;
          iod = iod\<lparr>iod_first_dma := dma_map_bvec env bv\<rparr>
      in if dma_mapping_error (iod_first_dma iod) then (BLK_STS_RESOURCE, dev, iod)
         else
          (let iod = iod\<lparr>iod_dma_len := bv_len bv\<rparr>;
               iod = iod\<lparr>iod_cmd := (iod_cmd iod)\<lparr>prp1 := iod_first_dma iod\<rparr>\<rparr>;
               iod = (if bv_len bv > first_prp_len
                      then iod\<lparr>iod_cmd := (iod_cmd iod)\<lparr>prp2 := iod_first_dma iod + ucast first_prp_len\<rparr>\<rparr>
                      else iod)
           in (BLK_STS_OK, dev, iod)))"

text \<open>\<open>apple_nvme_map_data\<close>. The labels \<open>out_unmap_sg\<close> and \<open>out_free_sg\<close> are the
  two clean-up calls.\<close>

definition apple_nvme_map_data ::
  "submit_env \<Rightarrow> apple_nvme_dev \<Rightarrow> data_rq \<Rightarrow> apple_nvme_iod \<Rightarrow> (blk_status \<times> apple_nvme_dev \<times> apple_nvme_iod) option" where
  "apple_nvme_map_data env dev req iod =
     (if nr_phys_segments req = 1
         \<and> bv_offset (rq_bvec req) + bv_len (rq_bvec req) \<le> of_nat NVME_CTRL_PAGE_SIZE * 2
      then Some (apple_nvme_setup_prp_simple env dev iod (rq_bvec req))
      else
       (let ret = BLK_STS_RESOURCE;
            iod = iod\<lparr>iod_dma_len := 0\<rparr>;
            dev = dev\<lparr>calls := calls dev @ [MEMPOOL_ALLOC_SG]\<rparr>
        in if \<not> mempool_alloc_ok env then Some (BLK_STS_RESOURCE, dev, iod\<lparr>iod_sg := []\<rparr>)
           else
            (let iod = iod\<lparr>iod_sg := mapped_sg env, iod_nents := blk_rq_map_sg env\<rparr>
             in if iod_nents iod = 0 \<or> dma_map_sg_attrs env = 0
                then Some (ret, dev\<lparr>calls := calls dev @ [MEMPOOL_FREE_SG]\<rparr>, iod)
                else
                 (case apple_nvme_setup_prps dev req iod of
                    None \<Rightarrow> None
                  | Some (ret, dev, iod) \<Rightarrow>
                      if ret \<noteq> BLK_STS_OK
                      then Some (ret, dev\<lparr>calls := calls dev @ [DMA_UNMAP_SG, MEMPOOL_FREE_SG]\<rparr>, iod)
                      else Some (BLK_STS_OK, dev, iod)))))"

text \<open>\<open>apple_nvme_map_metadata\<close>.\<close>

definition apple_nvme_map_metadata ::
  "submit_env \<Rightarrow> data_rq \<Rightarrow> apple_nvme_iod \<Rightarrow> blk_status \<times> apple_nvme_iod" where
  "apple_nvme_map_metadata env req iod =
     (let iod = iod\<lparr>iod_meta_dma := dma_map_bvec env (integrity_vec req)\<rparr>
      in if dma_mapping_error (iod_meta_dma iod) then (BLK_STS_IOERR, iod)
         else (BLK_STS_OK, iod\<lparr>iod_cmd := (iod_cmd iod)\<lparr>metadata := iod_meta_dma iod\<rparr>\<rparr>))"

section \<open>Request submission\<close>

text \<open>
  \<open>apple_nvme_queue_rq\<close>, on the queue \<open>hctx->driver_data\<close>. The result is the status,
  the device and the iod; \<open>None\<close> as in \<open>apple_nvme_setup_prps\<close>.
\<close>

definition apple_nvme_queue_rq ::
  "nvme_core \<Rightarrow> submit_env \<Rightarrow> apple_nvme_dev \<Rightarrow> qsel \<Rightarrow> data_rq \<Rightarrow> apple_nvme_iod \<Rightarrow>
     (blk_status \<times> apple_nvme_dev \<times> apple_nvme_iod) option" where
  "apple_nvme_queue_rq nc env dev sel req iod =
     (let nvmeq = get_q dev sel;
          iod = iod\<lparr>iod_aborted := 0, iod_npages := - 1, iod_nents := 0\<rparr>
      in if \<not> bit (flags nvmeq) NVMEQ_ENABLED then Some (BLK_STS_IOERR, dev, iod)
         else if \<not> nvme_check_ready env then Some (nvme_fail_nonready_command env, dev, iod)
         else
          (let ret = nvme_setup_cmd_status env;
               iod = iod\<lparr>iod_cmd := nvme_setup_cmd env\<rparr>
           in if ret \<noteq> BLK_STS_OK then Some (ret, dev, iod)
              else
               (case (if nr_phys_segments req \<noteq> 0 then apple_nvme_map_data env dev req iod
                      else Some (BLK_STS_OK, dev, iod)) of
                  None \<Rightarrow> None
                | Some (ret, dev, iod) \<Rightarrow>
                   if ret \<noteq> BLK_STS_OK
                   then Some (ret, dev\<lparr>calls := calls dev @ [NVME_CLEANUP_CMD]\<rparr>, iod)
                   else
                    (case (if integrity_rq req then apple_nvme_map_metadata env req iod
                           else (BLK_STS_OK, iod)) of
                       (ret, iod) \<Rightarrow>
                        if ret \<noteq> BLK_STS_OK
                        then (let dev = apple_nvme_unmap_data dev iod
                              in Some (ret, dev\<lparr>calls := calls dev @ [NVME_CLEANUP_CMD]\<rparr>, iod))
                        else
                         (let dev = dev\<lparr>calls := calls dev @ [BLK_MQ_START_REQUEST]\<rparr>;
                              dev = apple_nvme_submit_cmd nc dev sel (iod_cmd iod)
                          in Some (BLK_STS_OK, dev, iod))))))"

section \<open>Reading the traces\<close>

text \<open>The kind of a device-visible access: a write of a command into the submission
  ring, a write of a tracking slot, a write of a submission doorbell, or something else.\<close>

datatype hw_target = CMD_WRITE | TCB_WRITE | DOORBELL_WRITE | OTHER_ACCESS

fun hw_target_of :: "hw_access \<Rightarrow> hw_target" where
  "hw_target_of (SQ_STORE sel off cmd) = CMD_WRITE"
| "hw_target_of (TCB_STORE sel slot tcb) = TCB_WRITE"
| "hw_target_of (WRITEL (ANS2_Q_DB sel) v) = DOORBELL_WRITE"
| "hw_target_of (WRITEL r v) = OTHER_ACCESS"
| "hw_target_of (READL r) = OTHER_ACCESS"

text \<open>The tracking slot \<open>apple_nvme_submit_cmd\<close> builds for a command.\<close>

definition armed_tcb :: "nvme_core \<Rightarrow> nvme_command \<Rightarrow> apple_nvmmu_tcb" where
  "armed_tcb nc cmd =
     tcb_zero\<lparr>tcb_opcode := opcode cmd,
              tcb_dma_flags := (if nvme_is_write nc cmd then APPLE_ANS2_TCB_DMA_TO_DEVICE
                                else APPLE_ANS2_TCB_DMA_FROM_DEVICE),
              tcb_command_id := ucast (nvme_tag_from_cid nc (command_id cmd)),
              tcb_length := ucast (rw_length cmd),
              tcb_prp1 := prp1 cmd, tcb_prp2 := prp2 cmd\<rparr>"

text \<open>The offset of an address in its controller page, as \<open>apple_nvme_setup_prps\<close>
  computes it.\<close>

definition page_offset :: "u64 \<Rightarrow> int" where
  "page_offset a = uint (a AND (of_nat NVME_CTRL_PAGE_SIZE - 1))"

text \<open>The blocks a pool of the device can still hand out.\<close>

definition pool_blocks :: "apple_nvme_dev \<Rightarrow> pool_sel \<Rightarrow> u64 list" where
  "pool_blocks dev pool =
     (case pool of PRP_SMALL_POOL \<Rightarrow> prp_small_pool dev | PRP_PAGE_POOL \<Rightarrow> prp_page_pool dev)"

text \<open>
  Modelled from the spec: walking a descriptor chain, the reader's side of the format the
  builder writes ("fills consecutive 8-byte physical pointers, and when a page is full,
  reserves its last slot to hold the physical address of the next allocated page").
  \<open>prp_walk mem page n\<close> reads \<open>n\<close> pointers starting in the chain page \<open>page\<close>: all of
  them from this page when they fit, otherwise all slots but the last, and the rest from
  the page the last slot names (as \<open>apple_nvme_free_prps\<close> follows the chain).
\<close>

function prp_walk :: "(u64 \<Rightarrow> nat \<Rightarrow> u64) \<Rightarrow> u64 \<Rightarrow> nat \<Rightarrow> u64 list" where
  "prp_walk mem page n =
     (if n \<le> NVME_CTRL_PAGE_SIZE div 8 then map (mem page) [0..<n]
      else map (mem page) [0..<NVME_CTRL_PAGE_SIZE div 8 - 1]
           @ prp_walk mem (mem page (NVME_CTRL_PAGE_SIZE div 8 - 1))
               (n - (NVME_CTRL_PAGE_SIZE div 8 - 1)))"
  by pat_completeness auto
termination
  by (relation "measure (\<lambda>(mem, page, n). n)") (auto simp: NVME_CTRL_PAGE_SIZE_def)

declare prp_walk.simps [simp del]

text \<open>
  Modelled from the spec: the transfer a list of pointers describes for a payload of
  \<open>len\<close> bytes. Each pointer covers the bytes from its address to the end of its
  controller page, the last one only what is left of the payload; pointers behind the
  end of the payload cover nothing and are dropped.
\<close>

fun prp_cover :: "u64 list \<Rightarrow> int \<Rightarrow> (u64 \<times> int) list" where
  "prp_cover [] len = []"
| "prp_cover (p # ps) len =
     (if len \<le> 0 then []
      else (p, min len (int NVME_CTRL_PAGE_SIZE - page_offset p))
           # prp_cover ps (len - min len (int NVME_CTRL_PAGE_SIZE - page_offset p)))"

text \<open>
  Modelled from the spec: the input side of the round trip. A fragment of \<open>len\<close> bytes
  at address \<open>a\<close> is cut at the controller page boundaries into pieces (address, bytes);
  a fragment list gives the pieces of its fragments, in order.
\<close>

function frag_pieces :: "u64 \<Rightarrow> int \<Rightarrow> (u64 \<times> int) list" where
  "frag_pieces a len =
     (if len \<le> 0 then []
      else (a, min len (int NVME_CTRL_PAGE_SIZE - page_offset a))
           # frag_pieces (a + word_of_int (min len (int NVME_CTRL_PAGE_SIZE - page_offset a)))
               (len - min len (int NVME_CTRL_PAGE_SIZE - page_offset a)))"
  by pat_completeness auto
termination
proof (relation "measure (\<lambda>(a, len). nat len)")
  show "wf (measure (\<lambda>(a, len). nat len))" by simp
next
  fix a :: u64 and len :: int
  assume "\<not> len \<le> 0"
  moreover have "uint (a AND 4095) < 4096"
    using and_mask_lt_2p [of a 12] by (simp add: mask_eq_exp_minus_1)
  ultimately show "((a + word_of_int (min len (int NVME_CTRL_PAGE_SIZE - page_offset a)),
           len - min len (int NVME_CTRL_PAGE_SIZE - page_offset a)), a, len)
          \<in> measure (\<lambda>(a, len). nat len)"
    by (simp add: page_offset_def NVME_CTRL_PAGE_SIZE_def min_def)
qed

declare frag_pieces.simps [simp del]

definition sg_pieces :: "scatterlist list \<Rightarrow> (u64 \<times> int) list" where
  "sg_pieces sgl = concat (map (\<lambda>sg. frag_pieces (dma_address sg) (sint (dma_length sg))) sgl)"

text \<open>The number of pointers the list holds for a payload of \<open>len\<close> bytes whose first
  fragment is at address \<open>a\<close>: \<open>nprps\<close> of \<open>apple_nvme_setup_prps\<close>.\<close>

definition prp_nprps :: "int \<Rightarrow> u64 \<Rightarrow> nat" where
  "prp_nprps len a =
     nat ((len - (int NVME_CTRL_PAGE_SIZE - page_offset a) + int NVME_CTRL_PAGE_SIZE - 1)
          div int NVME_CTRL_PAGE_SIZE)"

text \<open>The bytes a mapped fragment list describes.\<close>

definition sg_total :: "scatterlist list \<Rightarrow> int" where
  "sg_total sgl = sum_list (map (\<lambda>sg. sint (dma_length sg)) sgl)"

text \<open>
  The fragment lists the builder is made for: the block layer merges under the virtual
  boundary of the controller page, so every fragment is non-empty, every fragment but
  the last ends on a page boundary and every fragment but the first starts on one.
\<close>

fun sgl_wf :: "scatterlist list \<Rightarrow> bool" where
  "sgl_wf [] = True"
| "sgl_wf [sg] = (0 < sint (dma_length sg))"
| "sgl_wf (sg # sg' # rest) =
     (0 < sint (dma_length sg)
      \<and> (page_offset (dma_address sg) + sint (dma_length sg)) mod int NVME_CTRL_PAGE_SIZE = 0
      \<and> page_offset (dma_address sg') = 0
      \<and> sgl_wf (sg' # rest))"

text \<open>The addresses the loop of \<open>apple_nvme_setup_prps\<close> stores, in order, as a
  function of the locals the loop steps through (a ghost of \<open>prp_fill\<close>, with the
  arithmetic of the loop).\<close>

function prp_entries :: "u64 \<Rightarrow> s32 \<Rightarrow> s32 \<Rightarrow> scatterlist list \<Rightarrow> u64 list" where
  "prp_entries dma_addr dma_len len sgs =
     dma_addr #
     (if sint (len - of_nat NVME_CTRL_PAGE_SIZE) \<le> 0 then []
      else if sint (dma_len - of_nat NVME_CTRL_PAGE_SIZE) > 0
      then prp_entries (dma_addr + of_nat NVME_CTRL_PAGE_SIZE) (dma_len - of_nat NVME_CTRL_PAGE_SIZE)
             (len - of_nat NVME_CTRL_PAGE_SIZE) sgs
      else if sint (dma_len - of_nat NVME_CTRL_PAGE_SIZE) < 0 then []
      else (case tl sgs of
              [] \<Rightarrow> []
            | sg # rest \<Rightarrow>
                prp_entries (dma_address sg) (dma_length sg)
                  (len - of_nat NVME_CTRL_PAGE_SIZE) (sg # rest)))"
  by pat_completeness auto
termination
proof (relation "measure (\<lambda>(dma_addr, dma_len, len, sgs). unat len)")
  show "wf (measure (\<lambda>(dma_addr, dma_len, len, sgs). unat len))" by simp
next
  fix len :: s32
  assume a: "\<not> sint (len - of_nat NVME_CTRL_PAGE_SIZE) \<le> 0"
  have p: "0 < sint (len - 4096)" using a by (simp add: NVME_CTRL_PAGE_SIZE_def)
  have r: "sint (len - 4096) < 2 ^ 31"
    using sint_range_size [of "len - 4096"] by (simp add: word_size)
  have "uint (len - 4096) = sint (len - 4096)"
    using p r by (simp add: uint_sint take_bit_int_eq_self)
  then have "int (unat (len - 4096)) < int (2 ^ 31)" using r by simp
  then have u: "unat (len - 4096) < 2 ^ 31" by (simp only: of_nat_less_iff)
  have "unat (len - 4096 + 4096) = unat (len - 4096) + unat (4096 :: s32)"
    using u by (intro unat_add_lem [THEN iffD1]) simp
  then have d: "unat (len - of_nat NVME_CTRL_PAGE_SIZE) < unat len"
    by (simp add: NVME_CTRL_PAGE_SIZE_def)
  fix dma_addr :: u64 and dma_len :: s32 and sgs :: "scatterlist list"
  show "((dma_addr + of_nat NVME_CTRL_PAGE_SIZE, dma_len - of_nat NVME_CTRL_PAGE_SIZE,
          len - of_nat NVME_CTRL_PAGE_SIZE, sgs), dma_addr, dma_len, len, sgs)
        \<in> measure (\<lambda>(dma_addr, dma_len, len, sgs). unat len)"
    using d by simp
  fix sg rest
  show "((dma_address sg, dma_length sg, len - of_nat NVME_CTRL_PAGE_SIZE, sg # rest),
          dma_addr, dma_len, len, sgs)
        \<in> measure (\<lambda>(dma_addr, dma_len, len, sgs). unat len)"
    using d by simp
qed

declare prp_entries.simps [simp del]

text \<open>A reaped entry is fresh when the low bit of its status is the phase the queue had
  when the entry was handled (the comparison of \<open>apple_nvme_cqe_pending\<close>).\<close>

definition fresh_entry :: "qsel \<times> u16 \<times> u8 \<times> nvme_completion \<Rightarrow> bool" where
  "fresh_entry e =
     (case e of (sel, idx, phase, cqe) \<Rightarrow> (ucast (cqe_status cqe AND 1) :: u32) = ucast phase)"

text \<open>\<open>n\<close> calls of \<open>apple_nvme_update_cq_head\<close> in a row.\<close>

fun update_cq_head_times :: "nat \<Rightarrow> apple_nvme_queue \<Rightarrow> apple_nvme_queue" where
  "update_cq_head_times 0 nvmeq = nvmeq"
| "update_cq_head_times (Suc n) nvmeq = apple_nvme_update_cq_head (update_cq_head_times n nvmeq)"

text \<open>The calls of a trace that issue an abort command, and those that disable the
  device.\<close>

fun is_abort_call :: "drv_call \<Rightarrow> bool" where
  "is_abort_call (BLK_EXECUTE_RQ_NOWAIT tag cmd done) = True"
| "is_abort_call c = False"

fun is_disable_call :: "drv_call \<Rightarrow> bool" where
  "is_disable_call (APPLE_NVME_DEV_DISABLE shutdown) = True"
| "is_disable_call c = False"

text \<open>The calls a handler added to the trace it started from.\<close>

definition new_calls :: "apple_nvme_dev \<Rightarrow> apple_nvme_dev \<Rightarrow> drv_call list" where
  "new_calls before after = drop (length (calls before)) (calls after)"

text \<open>
  A completion ring in order: between 1 and 65536 entries (the range of the 16-bit head)
  and the head inside the ring.
\<close>

definition ring_ok :: "apple_nvme_queue \<Rightarrow> bool" where
  "ring_ok nvmeq =
     (0 < unat (q_depth nvmeq) \<and> unat (q_depth nvmeq) \<le> 65536
      \<and> unat (cq_head nvmeq) < unat (q_depth nvmeq))"

text \<open>One turn of the loop of \<open>nvme_process_cq\<close>: the entry at the head is handled
  and the head advances.\<close>

definition cq_turn :: "nvme_core \<Rightarrow> apple_nvme_dev \<Rightarrow> qsel \<Rightarrow> apple_nvme_dev" where
  "cq_turn nc dev sel =
     (let dev = apple_nvme_handle_cqe nc dev sel (cq_head (get_q dev sel))
      in put_q dev sel (apple_nvme_update_cq_head (get_q dev sel)))"

text \<open>The device as the timeout handler finds it after the forced drain: the status
  register read, then \<open>apple_nvme_poll_irqdisable\<close> on the queue of the request.\<close>

definition timeout_drain ::
  "nat \<Rightarrow> nvme_core \<Rightarrow> apple_nvme_dev \<Rightarrow> timeout_rq \<Rightarrow> apple_nvme_dev option" where
  "timeout_drain fuel nc dev req =
     apple_nvme_poll_irqdisable fuel nc (dev\<lparr>hw := hw dev @ [READL NVME_REG_CSTS]\<rparr>) (rq_nvmeq req)"

text \<open>
  The abort commands in flight: the requests of the two tag sets that carry
  \<open>apple_abort_endio\<close>. The abort budget of the device is what the counter holds plus
  what the abort commands in flight will give back.
\<close>

definition is_abort_rq :: "request \<Rightarrow> bool" where
  "is_abort_rq rq = (req_end_io rq = Some APPLE_ABORT_ENDIO)"

definition pending_aborts :: "apple_nvme_dev \<Rightarrow> nat" where
  "pending_aborts dev =
     length (filter is_abort_rq (rqs (admin_tagset dev)))
     + length (filter is_abort_rq (rqs (tagset dev)))"

definition abort_budget :: "apple_nvme_dev \<Rightarrow> u32" where
  "abort_budget dev = abort_limit dev + of_nat (pending_aborts dev)"

text \<open>The request \<open>nvme_alloc_request\<close> hands out is a free one of the admin tag set:
  its tag is a tag of the set, and no abort command is in flight under it.\<close>

definition alloc_fresh :: "timeout_env \<Rightarrow> apple_nvme_dev \<Rightarrow> bool" where
  "alloc_fresh env dev =
     (case nvme_alloc_request env of
        None \<Rightarrow> True
      | Some (tag, rq) \<Rightarrow>
          tag < length (rqs (admin_tagset dev))
          \<and> \<not> is_abort_rq (rqs (admin_tagset dev) ! tag))"

section \<open>Concrete states\<close>

text \<open>The helpers of nvme.h as the NVMe headers define them: the tag is the low 12 bits
  of the command id, a command writes when bit 0 of its opcode is set.\<close>

definition nc0 :: nvme_core where
  "nc0 = \<lparr>nvme_tag_from_cid = (\<lambda>cid. ucast (cid AND 0xFFF)),
           nvme_is_write = (\<lambda>c. opcode c AND 1 = 1),
           nvme_is_aen_req = (\<lambda>qid cid. qid = 0 \<and> 32 \<le> cid),
           nvme_find_rq = (\<lambda>sel cid. True),
           nvme_try_complete_req = (\<lambda>cid. False)\<rparr>"

definition cmd_zero :: nvme_command where
  "cmd_zero = \<lparr>opcode = 0, cmd_flags = 0, command_id = 0, nsid = 0, rsvd2 = 0, metadata = 0,
     prp1 = 0, prp2 = 0, slba = 0, rw_length = 0, control = 0, dsmgmt = 0, reftag = 0,
     apptag = 0, appmask = 0\<rparr>"

definition cqe_zero :: nvme_completion where
  "cqe_zero = \<lparr>cqe_result = 0, cqe_sq_head = 0, cqe_sq_id = 0, cqe_command_id = 0,
     cqe_status = 0\<rparr>"

text \<open>A queue of depth 4 as \<open>apple_nvme_init_queue\<close> leaves it (head 0, phase 1, ring
  zeroed), enabled.\<close>

definition q0 :: apple_nvme_queue where
  "q0 = \<lparr>q_depth = 4, cq_head = 0, cq_phase = 1, sqes = 6, flags = 1, is_adminq = False,
          cqes = (\<lambda>i. cqe_zero), sq_cmds = (\<lambda>i. cmd_zero), ans2_tcb = (\<lambda>i. tcb_zero)\<rparr>"

text \<open>A request without data and without a callback; a device with 32 of them in the
  admin tag set and 64 in the I/O tag set, and an abort budget of one.\<close>

definition rq_idle :: request where
  "rq_idle = \<lparr>req_data = \<lparr>payload_bytes = 0, nr_phys_segments = 0,
                           rq_bvec = \<lparr>bv_page = 0, bv_len = 0, bv_offset = 0\<rparr>,
                           integrity_rq = False,
                           integrity_vec = \<lparr>bv_page = 0, bv_len = 0, bv_offset = 0\<rparr>\<rparr>,
              req_iod = \<lparr>iod_cmd = cmd_zero, iod_aborted = 0, iod_npages = - 1, iod_nents = 0,
                         iod_first_dma = 0, iod_dma_len = 0, iod_meta_dma = 0, iod_sg = [],
                         iod_list = (\<lambda>i. 0)\<rparr>,
              req_end_io = None\<rparr>"

definition dev0 :: apple_nvme_dev where
  "dev0 = \<lparr>adminq = q0\<lparr>is_adminq := True\<rparr>, ioq = q0,
            tagset = \<lparr>rqs = replicate 64 rq_idle\<rparr>,
            admin_tagset = \<lparr>rqs = replicate 32 rq_idle\<rparr>,
            adminq_online = True, ioq_online = True,
            ctrl_state = NVME_CTRL_LIVE, abort_limit = 1, mmio = (\<lambda>r. 0), hw = [], warnings = [],
            calls = [], reaped = [], prp_page_pool = [], prp_small_pool = [],
            prp_mem = (\<lambda>a i. 0)\<rparr>"

text \<open>A read command with tag 5.\<close>

definition cmd5 :: nvme_command where
  "cmd5 = cmd_zero\<lparr>opcode := 2, command_id := 5, prp1 := 0x10000, rw_length := 7\<rparr>"

text \<open>The I/O ring with two fresh entries (phase bit 1) at its head.\<close>

definition dev_two_cqes :: apple_nvme_dev where
  "dev_two_cqes =
     dev0\<lparr>ioq := q0\<lparr>cqes := (\<lambda>i. if i < 2 then cqe_zero\<lparr>cqe_command_id := of_nat i,
                                                                cqe_status := 1\<rparr>
                                     else cqe_zero)\<rparr>\<rparr>"

text \<open>A request on the I/O queue, not aborted so far, and the handler's two answers from
  outside: the request is still outstanding; the abort request is allocated at tag 3 of
  the admin tag set, or cannot be allocated.\<close>

definition rq0 :: timeout_rq where
  "rq0 = \<lparr>rq_tag = 5, rq_nvme_flags = 0, rq_nvmeq = IOQ, rq_aborted = 0\<rparr>"

definition env_alloc_ok :: timeout_env where
  "env_alloc_ok = \<lparr>blk_mq_request_completed = False, nvme_alloc_request = Some (3, rq_idle)\<rparr>"

definition env_alloc_fails :: timeout_env where
  "env_alloc_fails = \<lparr>blk_mq_request_completed = False, nvme_alloc_request = None\<rparr>"


text \<open>A device with blocks in both pools; an iod as the block layer hands it over; a
  request of \<open>n\<close> payload bytes in several segments; a mapped list of three fragments
  of 0x800, 0x2000 and 0x1000 bytes, the first one starting in the middle of a page.\<close>

definition dev_pools :: apple_nvme_dev where
  "dev_pools = dev0\<lparr>prp_small_pool := [0xA000, 0xA100],
                    prp_page_pool := [0x100000, 0x101000, 0x102000]\<rparr>"

definition iod_init :: apple_nvme_iod where
  "iod_init = \<lparr>iod_cmd = cmd_zero, iod_aborted = 0, iod_npages = - 1, iod_nents = 0,
     iod_first_dma = 0, iod_dma_len = 0, iod_meta_dma = 0, iod_sg = [], iod_list = (\<lambda>i. 0)\<rparr>"

definition bvec_zero :: bio_vec where
  "bvec_zero = \<lparr>bv_page = 0, bv_len = 0, bv_offset = 0\<rparr>"

definition rq_payload :: "u32 \<Rightarrow> data_rq" where
  "rq_payload n = \<lparr>payload_bytes = n, nr_phys_segments = 3, rq_bvec = bvec_zero,
     integrity_rq = False, integrity_vec = bvec_zero\<rparr>"

definition sg3 :: "scatterlist list" where
  "sg3 = [\<lparr>dma_address = 0x1800, dma_length = 0x800\<rparr>,
          \<lparr>dma_address = 0x5000, dma_length = 0x2000\<rparr>,
          \<lparr>dma_address = 0x9000, dma_length = 0x1000\<rparr>]"

text \<open>Three fragments of 0x1000, 0x1800 and 0x800 bytes: the second one ends in the
  middle of a page although a third one follows.\<close>

definition sg_unaligned :: "scatterlist list" where
  "sg_unaligned = [\<lparr>dma_address = 0x1000, dma_length = 0x1000\<rparr>,
                   \<lparr>dma_address = 0x5000, dma_length = 0x1800\<rparr>,
                   \<lparr>dma_address = 0x9000, dma_length = 0x800\<rparr>]"

text \<open>Kernel services that succeed: a bio_vec is mapped at 0x7000 plus its offset, the
  controller is ready (a command that is not ready would be turned away with
  \<open>BLK_STS_RESOURCE\<close>), and \<open>nvme_setup_cmd\<close> builds the read command with tag 5.\<close>

definition env0 :: submit_env where
  "env0 = \<lparr>dma_map_bvec = (\<lambda>bv. 0x7000 + ucast (bv_offset bv)), mempool_alloc_ok = True,
            mapped_sg = sg3, blk_rq_map_sg = 3, dma_map_sg_attrs = 3, nvme_check_ready = True,
            nvme_fail_nonready_command = BLK_STS_RESOURCE, nvme_setup_cmd_status = BLK_STS_OK,
            nvme_setup_cmd = cmd5\<rparr>"

text \<open>Requests of one segment: 0x1000 bytes at offset 0x200 of a page (crossing into the
  next page), and 0x400 bytes at the same offset (inside the page).\<close>

definition rq_two_pages :: data_rq where
  "rq_two_pages = \<lparr>payload_bytes = 0x1000, nr_phys_segments = 1,
     rq_bvec = \<lparr>bv_page = 0, bv_len = 0x1000, bv_offset = 0x200\<rparr>,
     integrity_rq = False, integrity_vec = bvec_zero\<rparr>"

definition rq_one_page :: data_rq where
  "rq_one_page = \<lparr>payload_bytes = 0x400, nr_phys_segments = 1,
     rq_bvec = \<lparr>bv_page = 0, bv_len = 0x400, bv_offset = 0x200\<rparr>,
     integrity_rq = False, integrity_vec = bvec_zero\<rparr>"

text \<open>The device with the I/O queue suspended (\<open>NVMEQ_ENABLED\<close> cleared).\<close>

definition dev_suspended :: apple_nvme_dev where
  "dev_suspended = dev0\<lparr>ioq := q0\<lparr>flags := 0\<rparr>\<rparr>"

section \<open>Properties of the tracking table and of submission\<close>

lemma submit_cmd_tcb:
  "ans2_tcb (get_q (apple_nvme_submit_cmd nc dev sel cmd) sel)
     (unat (nvme_tag_from_cid nc (command_id cmd))) = armed_tcb nc cmd"
  by (cases sel)
    (simp_all add: apple_nvme_submit_cmd_def armed_tcb_def get_q_def put_q_def Let_def)

lemma submit_cmd_hw:
  "hw (apple_nvme_submit_cmd nc dev sel cmd) =
     hw dev @
     [TCB_STORE sel (unat (nvme_tag_from_cid nc (command_id cmd))) (armed_tcb nc cmd),
      SQ_STORE sel (unat (push_bit (unat (sqes (get_q dev sel)))
                            (nvme_tag_from_cid nc (command_id cmd)))) cmd,
      WRITEL (ANS2_Q_DB sel) (nvme_tag_from_cid nc (command_id cmd))]"
  by (cases sel)
    (simp_all add: apple_nvme_submit_cmd_def armed_tcb_def get_q_def put_q_def Let_def)

lemma inval_tcb_slot:
  "ans2_tcb (get_q (apple_nvmmu_inval dev sel tag) sel) =
     (ans2_tcb (get_q dev sel))(unat tag := tcb_zero)"
  by (cases sel) (simp_all add: apple_nvmmu_inval_def get_q_def put_q_def Let_def)

text \<open>
  Claim C2, as the code has it. Submitting a command adds exactly three device-visible
  writes to the trace, in this order: the tracking slot of the command's tag (the slot
  built from the command), then the 64-byte command into the submission ring slot of
  the tag, then the tag into the queue's doorbell. The order stated in the claim, command
  first and tracking slot second, is not the order of the code.
\<close>

theorem C2_submit_three_writes_tcb_first:
  "hw (apple_nvme_submit_cmd nc dev sel cmd) =
     hw dev @
     [TCB_STORE sel (unat (nvme_tag_from_cid nc (command_id cmd))) (armed_tcb nc cmd),
      SQ_STORE sel (unat (push_bit (unat (sqes (get_q dev sel)))
                            (nvme_tag_from_cid nc (command_id cmd)))) cmd,
      WRITEL (ANS2_Q_DB sel) (nvme_tag_from_cid nc (command_id cmd))]
   \<and> map hw_target_of (drop (length (hw dev)) (hw (apple_nvme_submit_cmd nc dev sel cmd))) =
     [TCB_WRITE, CMD_WRITE, DOORBELL_WRITE]"
  by (simp add: submit_cmd_hw)

theorem C2_submit_three_writes_witness:
  "hw (apple_nvme_submit_cmd nc0 dev0 IOQ cmd5) =
     [TCB_STORE IOQ 5 (tcb_zero\<lparr>tcb_opcode := 2, tcb_dma_flags := 1, tcb_command_id := 5,
                                tcb_length := 7, tcb_prp1 := 0x10000\<rparr>),
      SQ_STORE IOQ 320 cmd5,
      WRITEL (ANS2_Q_DB IOQ) 5]"
  using C2_submit_three_writes_tcb_first [of nc0 dev0 IOQ cmd5]
  by (simp add: armed_tcb_def nc0_def dev0_def q0_def cmd5_def cmd_zero_def tcb_zero_def
      get_q_def APPLE_ANS2_TCB_DMA_FROM_DEVICE_def)

text \<open>
  The claim's order fails on a read command with tag 5 submitted to the I/O queue: the
  three writes are not "command, tracking slot, doorbell".
\<close>

theorem C2_command_first_counterexample:
  "map hw_target_of (hw (apple_nvme_submit_cmd nc0 dev0 IOQ cmd5)) \<noteq>
     [CMD_WRITE, TCB_WRITE, DOORBELL_WRITE]"
  by (simp add: submit_cmd_hw dev0_def)

text \<open>
  Claim C8. Arming a tag's tracking slot (as command submission does) and then
  invalidating that tag leaves the slot all zero: every field of the 128-byte record,
  the reserved ones included. Invalidating the same tag a second time leaves the whole
  tracking table as the first invalidation left it.
\<close>

theorem C8_arm_inval_zero_and_inval_idempotent:
  "ans2_tcb (get_q (apple_nvmmu_inval (apple_nvme_submit_cmd nc dev sel cmd) sel
                      (nvme_tag_from_cid nc (command_id cmd))) sel)
     (unat (nvme_tag_from_cid nc (command_id cmd))) = tcb_zero
   \<and> ans2_tcb (get_q (apple_nvmmu_inval (apple_nvmmu_inval dev sel tag) sel tag) sel) =
     ans2_tcb (get_q (apple_nvmmu_inval dev sel tag) sel)"
  by (simp add: inval_tcb_slot)

theorem C8_arm_inval_witness:
  "ans2_tcb (ioq (apple_nvme_submit_cmd nc0 dev0 IOQ cmd5)) 5 \<noteq> tcb_zero
   \<and> ans2_tcb (ioq (apple_nvmmu_inval (apple_nvme_submit_cmd nc0 dev0 IOQ cmd5) IOQ 5)) 5 = tcb_zero"
  using C8_arm_inval_zero_and_inval_idempotent [of nc0 dev0 IOQ cmd5 5]
    submit_cmd_tcb [of nc0 dev0 IOQ cmd5]
  by (simp add: get_q_def nc0_def cmd5_def cmd_zero_def armed_tcb_def tcb_zero_def)

section \<open>What the completion path leaves alone\<close>

lemma dma_pool_free_frame [simp]:
  "adminq (dma_pool_free dev pool b) = adminq dev"
  "ioq (dma_pool_free dev pool b) = ioq dev"
  "tagset (dma_pool_free dev pool b) = tagset dev"
  "admin_tagset (dma_pool_free dev pool b) = admin_tagset dev"
  "ctrl_state (dma_pool_free dev pool b) = ctrl_state dev"
  "abort_limit (dma_pool_free dev pool b) = abort_limit dev"
  "mmio (dma_pool_free dev pool b) = mmio dev"
  "hw (dma_pool_free dev pool b) = hw dev"
  "warnings (dma_pool_free dev pool b) = warnings dev"
  "calls (dma_pool_free dev pool b) = calls dev"
  "reaped (dma_pool_free dev pool b) = reaped dev"
  "prp_mem (dma_pool_free dev pool b) = prp_mem dev"
  by (cases pool; simp add: dma_pool_free_def)+

lemma free_prps_loop_frame [simp]:
  "adminq (free_prps_loop n iod i a dev) = adminq dev"
  "ioq (free_prps_loop n iod i a dev) = ioq dev"
  "tagset (free_prps_loop n iod i a dev) = tagset dev"
  "admin_tagset (free_prps_loop n iod i a dev) = admin_tagset dev"
  "ctrl_state (free_prps_loop n iod i a dev) = ctrl_state dev"
  "abort_limit (free_prps_loop n iod i a dev) = abort_limit dev"
  "mmio (free_prps_loop n iod i a dev) = mmio dev"
  "hw (free_prps_loop n iod i a dev) = hw dev"
  "warnings (free_prps_loop n iod i a dev) = warnings dev"
  "calls (free_prps_loop n iod i a dev) = calls dev"
  "reaped (free_prps_loop n iod i a dev) = reaped dev"
  "prp_mem (free_prps_loop n iod i a dev) = prp_mem dev"
  by (induction n arbitrary: i a dev; simp add: Let_def)+

lemma unmap_data_frame [simp]:
  "adminq (apple_nvme_unmap_data dev iod) = adminq dev"
  "ioq (apple_nvme_unmap_data dev iod) = ioq dev"
  "tagset (apple_nvme_unmap_data dev iod) = tagset dev"
  "admin_tagset (apple_nvme_unmap_data dev iod) = admin_tagset dev"
  "ctrl_state (apple_nvme_unmap_data dev iod) = ctrl_state dev"
  "abort_limit (apple_nvme_unmap_data dev iod) = abort_limit dev"
  "mmio (apple_nvme_unmap_data dev iod) = mmio dev"
  "hw (apple_nvme_unmap_data dev iod) = hw dev"
  "reaped (apple_nvme_unmap_data dev iod) = reaped dev"
  "prp_mem (apple_nvme_unmap_data dev iod) = prp_mem dev"
  by (simp_all add: apple_nvme_unmap_data_def apple_nvme_free_prps_def Let_def)

text \<open>The calls that neither issue an abort command nor disable the device.\<close>

lemma unmap_data_calls:
  "\<exists>new. calls (apple_nvme_unmap_data dev iod) = calls dev @ new
     \<and> filter is_abort_call new = [] \<and> filter is_disable_call new = []"
  by (simp add: apple_nvme_unmap_data_def apple_nvme_free_prps_def Let_def)

lemma get_q_simps [simp]:
  "get_q (dev\<lparr>hw := h\<rparr>) sel = get_q dev sel"
  "get_q (dev\<lparr>calls := c\<rparr>) sel = get_q dev sel"
  "get_q (dev\<lparr>warnings := w\<rparr>) sel = get_q dev sel"
  "get_q (dev\<lparr>reaped := r\<rparr>) sel = get_q dev sel"
  "get_q (dev\<lparr>abort_limit := l\<rparr>) sel = get_q dev sel"
  "get_q (dev\<lparr>tagset := t\<rparr>) sel = get_q dev sel"
  "get_q (dev\<lparr>admin_tagset := t\<rparr>) sel = get_q dev sel"
  "get_q (put_q dev sel q) sel = q"
  by (cases sel; simp add: get_q_def put_q_def)+

lemma get_tagset_simps [simp]:
  "get_tagset (dev\<lparr>hw := h\<rparr>) sel = get_tagset dev sel"
  "get_tagset (dev\<lparr>calls := c\<rparr>) sel = get_tagset dev sel"
  "get_tagset (dev\<lparr>warnings := w\<rparr>) sel = get_tagset dev sel"
  "get_tagset (dev\<lparr>reaped := r\<rparr>) sel = get_tagset dev sel"
  "get_tagset (dev\<lparr>abort_limit := l\<rparr>) sel = get_tagset dev sel"
  "get_tagset (dev\<lparr>adminq := q\<rparr>) sel = get_tagset dev sel"
  "get_tagset (dev\<lparr>ioq := q\<rparr>) sel = get_tagset dev sel"
  "get_tagset (put_q dev sel' q) sel = get_tagset dev sel"
  "get_tagset (put_tagset dev sel ts) sel = ts"
  by (cases sel; cases sel'; simp add: get_tagset_def put_q_def put_tagset_def)+

lemma put_rq_frame [simp]:
  "adminq (put_rq dev sel tag rq) = adminq dev"
  "ioq (put_rq dev sel tag rq) = ioq dev"
  "ctrl_state (put_rq dev sel tag rq) = ctrl_state dev"
  "abort_limit (put_rq dev sel tag rq) = abort_limit dev"
  "mmio (put_rq dev sel tag rq) = mmio dev"
  "hw (put_rq dev sel tag rq) = hw dev"
  "warnings (put_rq dev sel tag rq) = warnings dev"
  "calls (put_rq dev sel tag rq) = calls dev"
  "reaped (put_rq dev sel tag rq) = reaped dev"
  "prp_mem (put_rq dev sel tag rq) = prp_mem dev"
  by (cases sel; simp add: put_rq_def put_tagset_def)+

lemma free_request_frame [simp]:
  "adminq (blk_mq_free_request dev sel tag) = adminq dev"
  "ioq (blk_mq_free_request dev sel tag) = ioq dev"
  "ctrl_state (blk_mq_free_request dev sel tag) = ctrl_state dev"
  "abort_limit (blk_mq_free_request dev sel tag) = abort_limit dev"
  "mmio (blk_mq_free_request dev sel tag) = mmio dev"
  "hw (blk_mq_free_request dev sel tag) = hw dev"
  "warnings (blk_mq_free_request dev sel tag) = warnings dev"
  "calls (blk_mq_free_request dev sel tag) = calls dev @ [BLK_MQ_FREE_REQUEST sel tag]"
  "reaped (blk_mq_free_request dev sel tag) = reaped dev"
  "prp_mem (blk_mq_free_request dev sel tag) = prp_mem dev"
  by (simp_all add: blk_mq_free_request_def Let_def)

lemma abort_endio_frame [simp]:
  "adminq (apple_abort_endio dev sel tag) = adminq dev"
  "ioq (apple_abort_endio dev sel tag) = ioq dev"
  "ctrl_state (apple_abort_endio dev sel tag) = ctrl_state dev"
  "abort_limit (apple_abort_endio dev sel tag) = abort_limit dev + 1"
  "mmio (apple_abort_endio dev sel tag) = mmio dev"
  "hw (apple_abort_endio dev sel tag) = hw dev"
  "calls (apple_abort_endio dev sel tag) = calls dev @ [BLK_MQ_FREE_REQUEST sel tag]"
  "reaped (apple_abort_endio dev sel tag) = reaped dev"
  "prp_mem (apple_abort_endio dev sel tag) = prp_mem dev"
  by (simp_all add: apple_abort_endio_def Let_def)

lemma complete_rq_frame [simp]:
  "adminq (nvme_complete_rq dev sel tag) = adminq dev"
  "ioq (nvme_complete_rq dev sel tag) = ioq dev"
  "ctrl_state (nvme_complete_rq dev sel tag) = ctrl_state dev"
  "mmio (nvme_complete_rq dev sel tag) = mmio dev"
  "hw (nvme_complete_rq dev sel tag) = hw dev"
  "reaped (nvme_complete_rq dev sel tag) = reaped dev"
  "prp_mem (nvme_complete_rq dev sel tag) = prp_mem dev"
  by (simp_all add: nvme_complete_rq_def Let_def split: option.splits rq_end_io.splits)

lemma complete_rq_calls:
  "\<exists>new. calls (nvme_complete_rq dev sel tag) = calls dev @ new
     \<and> filter is_abort_call new = [] \<and> filter is_disable_call new = []"
  by (simp add: nvme_complete_rq_def Let_def split: option.splits rq_end_io.splits)

lemma common_complete_rq_frame [simp]:
  "adminq (apple_nvme_common_complete_rq dev sel tag) = adminq dev"
  "ioq (apple_nvme_common_complete_rq dev sel tag) = ioq dev"
  "ctrl_state (apple_nvme_common_complete_rq dev sel tag) = ctrl_state dev"
  "mmio (apple_nvme_common_complete_rq dev sel tag) = mmio dev"
  "hw (apple_nvme_common_complete_rq dev sel tag) = hw dev"
  "reaped (apple_nvme_common_complete_rq dev sel tag) = reaped dev"
  "prp_mem (apple_nvme_common_complete_rq dev sel tag) = prp_mem dev"
  by (simp_all add: apple_nvme_common_complete_rq_def Let_def)

lemma common_complete_rq_calls:
  "\<exists>new. calls (apple_nvme_common_complete_rq dev sel tag) = calls dev @ new
     \<and> filter is_abort_call new = [] \<and> filter is_disable_call new = []"
proof -
  define dev1 where "dev1 = (if integrity_rq (req_data (get_rq dev sel tag))
       then dev\<lparr>calls := calls dev @
              [DMA_UNMAP_PAGE (iod_meta_dma (req_iod (get_rq dev sel tag)))
                 (bv_len (integrity_vec (req_data (get_rq dev sel tag))))]\<rparr>
       else dev)"
  define dev2 where "dev2 = (if nr_phys_segments (req_data (get_rq dev sel tag)) \<noteq> 0
       then apple_nvme_unmap_data dev1 (req_iod (get_rq dev sel tag)) else dev1)"
  obtain n1 where n1: "calls dev1 = calls dev @ n1" "filter is_abort_call n1 = []"
    "filter is_disable_call n1 = []"
    by (cases "integrity_rq (req_data (get_rq dev sel tag))") (simp_all add: dev1_def)
  obtain n2 where n2: "calls dev2 = calls dev1 @ n2" "filter is_abort_call n2 = []"
    "filter is_disable_call n2 = []"
    using unmap_data_calls [of dev1 "req_iod (get_rq dev sel tag)"]
    by (cases "nr_phys_segments (req_data (get_rq dev sel tag)) \<noteq> 0") (auto simp: dev2_def)
  obtain n3 where n3: "calls (nvme_complete_rq dev2 sel tag) = calls dev2 @ n3"
    "filter is_abort_call n3 = []" "filter is_disable_call n3 = []"
    using complete_rq_calls [of dev2 sel tag] by blast
  have "apple_nvme_common_complete_rq dev sel tag = nvme_complete_rq dev2 sel tag"
    by (simp add: apple_nvme_common_complete_rq_def Let_def dev2_def dev1_def)
  then show ?thesis using n1 n2 n3 by simp
qed

lemma inval_frame [simp]:
  "tagset (apple_nvmmu_inval dev sel tag) = tagset dev"
  "admin_tagset (apple_nvmmu_inval dev sel tag) = admin_tagset dev"
  "ctrl_state (apple_nvmmu_inval dev sel tag) = ctrl_state dev"
  "abort_limit (apple_nvmmu_inval dev sel tag) = abort_limit dev"
  "mmio (apple_nvmmu_inval dev sel tag) = mmio dev"
  "calls (apple_nvmmu_inval dev sel tag) = calls dev"
  "reaped (apple_nvmmu_inval dev sel tag) = reaped dev"
  "prp_mem (apple_nvmmu_inval dev sel tag) = prp_mem dev"
  by (cases sel; simp add: apple_nvmmu_inval_def put_q_def Let_def)+

lemma inval_queue [simp]:
  "cqes (get_q (apple_nvmmu_inval dev sel tag) sel') = cqes (get_q dev sel')"
  "q_depth (get_q (apple_nvmmu_inval dev sel tag) sel') = q_depth (get_q dev sel')"
  "cq_head (get_q (apple_nvmmu_inval dev sel tag) sel') = cq_head (get_q dev sel')"
  "cq_phase (get_q (apple_nvmmu_inval dev sel tag) sel') = cq_phase (get_q dev sel')"
  "is_adminq (get_q (apple_nvmmu_inval dev sel tag) sel') = is_adminq (get_q dev sel')"
  "flags (get_q (apple_nvmmu_inval dev sel tag) sel') = flags (get_q dev sel')"
  by (cases sel; cases sel'; simp add: apple_nvmmu_inval_def get_q_def put_q_def Let_def)+

lemma get_q_complete [simp]:
  "get_q (apple_nvme_common_complete_rq dev sel tag) sel' = get_q dev sel'"
  by (cases sel') (simp_all add: get_q_def)

lemma handle_cqe_queue [simp]:
  "cqes (get_q (apple_nvme_handle_cqe nc dev sel idx) sel') = cqes (get_q dev sel')"
  "q_depth (get_q (apple_nvme_handle_cqe nc dev sel idx) sel') = q_depth (get_q dev sel')"
  "cq_head (get_q (apple_nvme_handle_cqe nc dev sel idx) sel') = cq_head (get_q dev sel')"
  "cq_phase (get_q (apple_nvme_handle_cqe nc dev sel idx) sel') = cq_phase (get_q dev sel')"
  "is_adminq (get_q (apple_nvme_handle_cqe nc dev sel idx) sel') = is_adminq (get_q dev sel')"
  "flags (get_q (apple_nvme_handle_cqe nc dev sel idx) sel') = flags (get_q dev sel')"
  by (simp_all add: apple_nvme_handle_cqe_def Let_def split: option.splits)

lemma handle_cqe_frame [simp]:
  "ctrl_state (apple_nvme_handle_cqe nc dev sel idx) = ctrl_state dev"
  "mmio (apple_nvme_handle_cqe nc dev sel idx) = mmio dev"
  "prp_mem (apple_nvme_handle_cqe nc dev sel idx) = prp_mem dev"
  by (simp_all add: apple_nvme_handle_cqe_def Let_def split: option.splits)

lemma handle_cqe_calls:
  "\<exists>new. calls (apple_nvme_handle_cqe nc dev sel idx) = calls dev @ new
     \<and> filter is_abort_call new = [] \<and> filter is_disable_call new = []"
proof -
  define dev1 where "dev1 = apple_nvmmu_inval
      (dev\<lparr>reaped := reaped dev @ [(sel, idx, cq_phase (get_q dev sel), cqes (get_q dev sel) (unat idx))]\<rparr>)
      sel (nvme_tag_from_cid nc (cqe_command_id (cqes (get_q dev sel) (unat idx))))"
  have c1: "calls dev1 = calls dev" by (simp add: dev1_def)
  show ?thesis
    using common_complete_rq_calls [of dev1] c1
    by (auto simp: apple_nvme_handle_cqe_def Let_def dev1_def [symmetric] split: option.splits)
qed

section \<open>Properties of the completion ring\<close>

lemma handle_cqe_reaped:
  "reaped (apple_nvme_handle_cqe nc dev sel idx) =
     reaped dev @ [(sel, idx, cq_phase (get_q dev sel), cqes (get_q dev sel) (unat idx))]"
  by (simp add: apple_nvme_handle_cqe_def Let_def split: option.splits)

lemma put_q_reaped: "reaped (put_q dev sel q) = reaped dev"
  by (cases sel) (simp_all add: put_q_def)

lemma pending_fresh:
  "apple_nvme_cqe_pending (get_q dev sel) \<Longrightarrow>
   fresh_entry (sel, cq_head (get_q dev sel), cq_phase (get_q dev sel),
                cqes (get_q dev sel) (unat (cq_head (get_q dev sel))))"
  by (simp add: apple_nvme_cqe_pending_def fresh_entry_def Let_def)

lemma process_cq_loop_reaped:
  "\<exists>new. reaped (snd (snd (nvme_process_cq_loop fuel nc sel (found, dev)))) = reaped dev @ new
     \<and> (\<forall>e \<in> set new. fresh_entry e)"
proof (induction fuel arbitrary: found dev)
  case 0
  show ?case by simp
next
  case (Suc fuel)
  show ?case
  proof (cases "apple_nvme_cqe_pending (get_q dev sel)")
    case False
    then show ?thesis by simp
  next
    case True
    define dev1 where "dev1 = apple_nvme_handle_cqe nc dev sel (cq_head (get_q dev sel))"
    define dev2 where "dev2 = put_q dev1 sel (apple_nvme_update_cq_head (get_q dev1 sel))"
    have r2: "reaped dev2 = reaped dev @ [(sel, cq_head (get_q dev sel), cq_phase (get_q dev sel),
                cqes (get_q dev sel) (unat (cq_head (get_q dev sel))))]"
      by (simp add: dev2_def dev1_def put_q_reaped handle_cqe_reaped)
    obtain new where new: "reaped (snd (snd (nvme_process_cq_loop fuel nc sel (found + 1, dev2)))) = reaped dev2 @ new"
      "\<forall>e \<in> set new. fresh_entry e"
      using Suc.IH [of "found + 1" dev2] by blast
    have "nvme_process_cq_loop (Suc fuel) nc sel (found, dev) = nvme_process_cq_loop fuel nc sel (found + 1, dev2)"
      using True by (simp add: Let_def dev2_def dev1_def)
    then show ?thesis using new r2 pending_fresh [OF True] by simp
  qed
qed

lemma process_cq_loop_fresh:
  "take (length (reaped dev)) (reaped (snd (snd (nvme_process_cq_loop fuel nc sel (found, dev))))) = reaped dev
   \<and> list_all fresh_entry (drop (length (reaped dev)) (reaped (snd (snd (nvme_process_cq_loop fuel nc sel (found, dev))))))"
  using process_cq_loop_reaped [of fuel nc sel found dev] by (auto simp: list_all_iff)


lemma update_cq_head_times_below:
  assumes "unat (q_depth q) \<le> 65536" "cq_head q = 0" "k < unat (q_depth q)"
  shows "update_cq_head_times k q = q\<lparr>cq_head := of_nat k\<rparr>"
  using assms(3)
proof (induction k)
  case 0
  then show ?case using assms(2) by simp
next
  case (Suc k)
  then have k: "k < unat (q_depth q)" "Suc k < unat (q_depth q)" by simp_all
  have k16: "k < 65536" using k assms(1) by simp
  have u: "(ucast (of_nat k :: u16) :: u32) = of_nat k"
    using k16 by (simp add: unsigned_of_nat take_bit_nat_eq_self)
  have ne: "(of_nat k :: u32) + 1 \<noteq> q_depth q"
  proof
    assume "(of_nat k :: u32) + 1 = q_depth q"
    then have "unat ((of_nat (Suc k)) :: u32) = unat (q_depth q)" by (simp add: add.commute)
    moreover have "unat ((of_nat (Suc k)) :: u32) = Suc k"
      using k16 by (simp add: unsigned_of_nat take_bit_nat_eq_self del: of_nat_Suc)
    ultimately show False using k by simp
  qed
  have Sk: "(of_nat k :: u32) + 1 = of_nat (Suc k)" by simp
  have s: "(ucast (of_nat (Suc k) :: u32) :: u16) = of_nat (Suc k)"
    using k16 by (simp add: unsigned_of_nat take_bit_nat_eq_self del: of_nat_Suc)
  have "update_cq_head_times (Suc k) q = apple_nvme_update_cq_head (q\<lparr>cq_head := of_nat k\<rparr>)"
    using Suc.IH [OF k(1)] by simp
  also have "\<dots> = q\<lparr>cq_head := ucast ((of_nat k :: u32) + 1)\<rparr>"
    using u ne by (simp add: apple_nvme_update_cq_head_def Let_def)
  also have "\<dots> = q\<lparr>cq_head := of_nat (Suc k)\<rparr>"
    by (simp only: Sk s)
  finally show ?case .
qed

lemma update_cq_head_times_lap:
  assumes "0 < unat (q_depth q)" "unat (q_depth q) \<le> 65536" "cq_head q = 0"
  shows "update_cq_head_times (unat (q_depth q)) q = q\<lparr>cq_head := 0, cq_phase := cq_phase q XOR 1\<rparr>"
proof -
  obtain k where k: "unat (q_depth q) = Suc k" using assms(1) by (cases "unat (q_depth q)") auto
  have k16: "k < 65536" using k assms(2) by simp
  have b: "update_cq_head_times k q = q\<lparr>cq_head := of_nat k\<rparr>"
    using update_cq_head_times_below [OF assms(2,3), of k] k by simp
  have u: "(ucast (of_nat k :: u16) :: u32) = of_nat k"
    using k16 by (simp add: unsigned_of_nat take_bit_nat_eq_self)
  have "(of_nat (Suc k) :: u32) = of_nat (unat (q_depth q))" using k by simp
  then have e: "(of_nat k :: u32) + 1 = q_depth q" by (simp add: add.commute)
  show ?thesis using b u e by (simp add: k apple_nvme_update_cq_head_def Let_def)
qed

text \<open>
  Claim C5. On a completion ring of depth \<open>D\<close> (a ring has at least one entry, and
  at most 65536, the range of the 16-bit head), \<open>D\<close> advances of the head from 0
  bring the head back to 0 and toggle the phase once: the phase is the old one after
  each of the first \<open>D - 1\<close> advances, where the head is the number of advances, and
  the toggled one after the last. And the reaper only consumes fresh entries: whatever
  the ring holds and however long the loop runs, every entry it hands to
  \<open>apple_nvme_handle_cqe\<close> has the status low bit equal to the queue's phase at that
  moment, and the entries reaped before the call are kept.
\<close>

theorem C5_phase_lap_and_fresh_entries:
  assumes "0 < unat (q_depth nvmeq)" and "unat (q_depth nvmeq) \<le> 65536" and "cq_head nvmeq = 0"
  shows "cq_head (update_cq_head_times (unat (q_depth nvmeq)) nvmeq) = 0
     \<and> cq_phase (update_cq_head_times (unat (q_depth nvmeq)) nvmeq) = cq_phase nvmeq XOR 1
     \<and> (\<forall>k < unat (q_depth nvmeq).
           cq_head (update_cq_head_times k nvmeq) = of_nat k
         \<and> cq_phase (update_cq_head_times k nvmeq) = cq_phase nvmeq)
     \<and> take (length (reaped dev))
          (reaped (snd (snd (nvme_process_cq_loop fuel nc sel (found, dev))))) = reaped dev
     \<and> list_all fresh_entry
          (drop (length (reaped dev))
             (reaped (snd (snd (nvme_process_cq_loop fuel nc sel (found, dev))))))"
proof -
  have "\<forall>k < unat (q_depth nvmeq).
           cq_head (update_cq_head_times k nvmeq) = of_nat k
         \<and> cq_phase (update_cq_head_times k nvmeq) = cq_phase nvmeq"
    using update_cq_head_times_below [OF assms(2,3)] by simp
  then show ?thesis
    using update_cq_head_times_lap [OF assms] process_cq_loop_fresh [of dev fuel nc sel found]
    by simp
qed

theorem C5_phase_lap_witness:
  "cq_head (update_cq_head_times 4 q0) = 0
   \<and> cq_phase q0 = 1
   \<and> cq_phase (update_cq_head_times 4 q0) = 0
   \<and> cq_head (update_cq_head_times 3 q0) = 3
   \<and> cq_phase (update_cq_head_times 3 q0) = 1
   \<and> length (reaped (snd (snd (nvme_process_cq_loop 5 nc0 IOQ (0, dev_two_cqes))))) = 2
   \<and> list_all fresh_entry (reaped (snd (snd (nvme_process_cq_loop 5 nc0 IOQ (0, dev_two_cqes)))))"
proof -
  have d: "unat (q_depth q0) = 4" "cq_head q0 = 0" "cq_phase q0 = 1"
    by (simp_all add: q0_def)
  have r: "reaped dev_two_cqes = []"
    by (simp add: dev_two_cqes_def dev0_def)
  have l: "length (reaped (snd (snd (nvme_process_cq_loop 5 nc0 IOQ (0, dev_two_cqes))))) = 2"
    by code_simp
  have t: "cq_head (update_cq_head_times 4 q0) = 0
     \<and> cq_phase (update_cq_head_times 4 q0) = 1 XOR 1
     \<and> (\<forall>k < 4. cq_head (update_cq_head_times k q0) = of_nat k
                 \<and> cq_phase (update_cq_head_times k q0) = 1)
     \<and> list_all fresh_entry (reaped (snd (snd (nvme_process_cq_loop 5 nc0 IOQ (0, dev_two_cqes)))))"
    using C5_phase_lap_and_fresh_entries [of q0 dev_two_cqes 5 nc0 IOQ 0] d r by simp
  then have "cq_head (update_cq_head_times 3 q0) = of_nat 3 \<and> cq_phase (update_cq_head_times 3 q0) = 1"
    by (elim conjE allE [of _ 3]) simp
  then show ?thesis using t d l by simp
qed

section \<open>The drain comes to an end\<close>

text \<open>
  The loop of \<open>nvme_process_cq\<close> runs on the ring as it stands when the loop starts: no
  entry is written while it runs. On a ring in order it ends within two laps. The entries
  it consumes up to the end of the ring carry the phase of the queue; there the phase
  flips, and when the head comes back to where the loop started, the entries consumed
  before are stale.
\<close>

lemma unat_ucast_head: "unat (ucast (h :: u16) :: u32) = unat h"
proof -
  have "unat h < 2 ^ 32" using unsigned_less [of h, where 'a = nat] by simp
  then show ?thesis by (simp add: unsigned_ucast_eq take_bit_nat_eq_self)
qed

lemma update_cq_head_ring:
  assumes "ring_ok q"
  shows "cqes (apple_nvme_update_cq_head q) = cqes q"
    and "q_depth (apple_nvme_update_cq_head q) = q_depth q"
    and "is_adminq (apple_nvme_update_cq_head q) = is_adminq q"
    and "unat (cq_head q) + 1 = unat (q_depth q) \<Longrightarrow>
           cq_head (apple_nvme_update_cq_head q) = 0
           \<and> cq_phase (apple_nvme_update_cq_head q) = cq_phase q XOR 1"
    and "unat (cq_head q) + 1 \<noteq> unat (q_depth q) \<Longrightarrow>
           unat (cq_head (apple_nvme_update_cq_head q)) = unat (cq_head q) + 1
           \<and> cq_phase (apple_nvme_update_cq_head q) = cq_phase q"
    and "ring_ok (apple_nvme_update_cq_head q)"
proof -
  have r: "0 < unat (q_depth q)" "unat (q_depth q) \<le> 65536" "unat (cq_head q) < unat (q_depth q)"
    using assms by (simp_all add: ring_ok_def)
  have "unat ((ucast (cq_head q) :: u32) + 1) = unat (ucast (cq_head q) :: u32) + unat (1 :: u32)"
    using r by (intro unat_add_lem [THEN iffD1]) (simp add: unat_ucast_head)
  then have t: "unat ((ucast (cq_head q) :: u32) + 1) = unat (cq_head q) + 1"
    by (simp add: unat_ucast_head)
  have e: "((ucast (cq_head q) :: u32) + 1 = q_depth q) = (unat (cq_head q) + 1 = unat (q_depth q))"
    using t by (metis word_unat_eq_iff)
  show "cqes (apple_nvme_update_cq_head q) = cqes q"
    and "q_depth (apple_nvme_update_cq_head q) = q_depth q"
    and "is_adminq (apple_nvme_update_cq_head q) = is_adminq q"
    by (simp_all add: apple_nvme_update_cq_head_def Let_def)
  show w: "cq_head (apple_nvme_update_cq_head q) = 0
           \<and> cq_phase (apple_nvme_update_cq_head q) = cq_phase q XOR 1"
    if "unat (cq_head q) + 1 = unat (q_depth q)"
    using that e by (simp add: apple_nvme_update_cq_head_def Let_def)
  show n: "unat (cq_head (apple_nvme_update_cq_head q)) = unat (cq_head q) + 1
           \<and> cq_phase (apple_nvme_update_cq_head q) = cq_phase q"
    if ne: "unat (cq_head q) + 1 \<noteq> unat (q_depth q)"
  proof -
    have s: "unat (cq_head q) + 1 < 65536" using ne r by simp
    have "unat (ucast ((ucast (cq_head q) :: u32) + 1) :: u16) = unat (cq_head q) + 1"
      using s t by (simp add: unsigned_ucast_eq take_bit_nat_eq_self)
    then show ?thesis using ne e by (simp add: apple_nvme_update_cq_head_def Let_def)
  qed
  show "ring_ok (apple_nvme_update_cq_head q)"
  proof (cases "unat (cq_head q) + 1 = unat (q_depth q)")
    case True
    then show ?thesis using w r by (simp add: ring_ok_def apple_nvme_update_cq_head_def Let_def)
  next
    case False
    then show ?thesis using n [OF False] r
      by (simp add: ring_ok_def \<open>q_depth (apple_nvme_update_cq_head q) = q_depth q\<close>)
  qed
qed

lemma loop_not_pending:
  "\<not> apple_nvme_cqe_pending (get_q dev sel) \<Longrightarrow>
   nvme_process_cq_loop fuel nc sel (found, dev) = (True, found, dev)"
  by (cases fuel) simp_all

lemma loop_turn:
  "apple_nvme_cqe_pending (get_q dev sel) \<Longrightarrow>
   nvme_process_cq_loop (Suc n) nc sel (found, dev) =
     nvme_process_cq_loop n nc sel (found + 1, cq_turn nc dev sel)"
  by (simp add: cq_turn_def Let_def)

lemma loop_invariant:
  assumes "P dev"
    and "\<And>d. P d \<Longrightarrow> apple_nvme_cqe_pending (get_q d sel) \<Longrightarrow> P (cq_turn nc d sel)"
  shows "P (snd (snd (nvme_process_cq_loop fuel nc sel (found, dev))))"
  using assms(1)
proof (induction fuel arbitrary: found dev)
  case 0
  then show ?case by simp
next
  case (Suc fuel)
  show ?case
  proof (cases "apple_nvme_cqe_pending (get_q dev sel)")
    case True
    show ?thesis
      unfolding loop_turn [OF True]
      by (rule Suc.IH) (rule assms(2) [OF Suc.prems True])
  next
    case False
    then show ?thesis using Suc.prems by (simp add: loop_not_pending)
  qed
qed

lemma cq_turn_ring:
  assumes "ring_ok (get_q dev sel)"
  shows "ring_ok (get_q (cq_turn nc dev sel) sel)"
    and "cqes (get_q (cq_turn nc dev sel) sel) = cqes (get_q dev sel)"
    and "q_depth (get_q (cq_turn nc dev sel) sel) = q_depth (get_q dev sel)"
    and "unat (cq_head (get_q dev sel)) + 1 = unat (q_depth (get_q dev sel)) \<Longrightarrow>
           cq_head (get_q (cq_turn nc dev sel) sel) = 0
           \<and> cq_phase (get_q (cq_turn nc dev sel) sel) = cq_phase (get_q dev sel) XOR 1"
    and "unat (cq_head (get_q dev sel)) + 1 \<noteq> unat (q_depth (get_q dev sel)) \<Longrightarrow>
           unat (cq_head (get_q (cq_turn nc dev sel) sel)) = unat (cq_head (get_q dev sel)) + 1
           \<and> cq_phase (get_q (cq_turn nc dev sel) sel) = cq_phase (get_q dev sel)"
proof -
  define q1 where "q1 = get_q (apple_nvme_handle_cqe nc dev sel (cq_head (get_q dev sel))) sel"
  have q1: "cqes q1 = cqes (get_q dev sel)" "q_depth q1 = q_depth (get_q dev sel)"
    "cq_head q1 = cq_head (get_q dev sel)" "cq_phase q1 = cq_phase (get_q dev sel)"
    by (simp_all add: q1_def)
  have r1: "ring_ok q1" using assms by (simp add: ring_ok_def q1)
  have t: "get_q (cq_turn nc dev sel) sel = apple_nvme_update_cq_head q1"
    by (simp add: cq_turn_def Let_def q1_def)
  note u = update_cq_head_ring [OF r1]
  show "ring_ok (get_q (cq_turn nc dev sel) sel)" using u(6) by (simp add: t)
  show "cqes (get_q (cq_turn nc dev sel) sel) = cqes (get_q dev sel)"
    using u(1) by (simp add: t q1)
  show "q_depth (get_q (cq_turn nc dev sel) sel) = q_depth (get_q dev sel)"
    using u(2) by (simp add: t q1)
  show "cq_head (get_q (cq_turn nc dev sel) sel) = 0
           \<and> cq_phase (get_q (cq_turn nc dev sel) sel) = cq_phase (get_q dev sel) XOR 1"
    if "unat (cq_head (get_q dev sel)) + 1 = unat (q_depth (get_q dev sel))"
    using u(4) that by (simp add: t q1)
  show "unat (cq_head (get_q (cq_turn nc dev sel) sel)) = unat (cq_head (get_q dev sel)) + 1
           \<and> cq_phase (get_q (cq_turn nc dev sel) sel) = cq_phase (get_q dev sel)"
    if "unat (cq_head (get_q dev sel)) + 1 \<noteq> unat (q_depth (get_q dev sel))"
    using u(5) that by (simp add: t q1)
qed

lemma drain_last_lap:
  "ring_ok (get_q dev sel) \<Longrightarrow>
   (ucast (cqe_status (cqes (get_q dev sel) 0) AND 1) :: u32)
      \<noteq> ucast (cq_phase (get_q dev sel) XOR 1) \<Longrightarrow>
   unat (q_depth (get_q dev sel)) \<le> fuel + unat (cq_head (get_q dev sel)) \<Longrightarrow>
   fst (nvme_process_cq_loop fuel nc sel (found, dev))"
proof (induction fuel arbitrary: found dev)
  case 0
  then show ?case by (simp add: ring_ok_def)
next
  case (Suc fuel)
  show ?case
  proof (cases "apple_nvme_cqe_pending (get_q dev sel)")
    case False
    then show ?thesis by (simp add: loop_not_pending)
  next
    case True
    note r = cq_turn_ring [OF Suc.prems(1), of nc]
    show ?thesis
    proof (cases "unat (cq_head (get_q dev sel)) + 1 = unat (q_depth (get_q dev sel))")
      case wrap: True
      have "\<not> apple_nvme_cqe_pending (get_q (cq_turn nc dev sel) sel)"
        using r(4) [OF wrap] r(2) Suc.prems(2) by (simp add: apple_nvme_cqe_pending_def Let_def)
      then show ?thesis unfolding loop_turn [OF True] by (simp add: loop_not_pending)
    next
      case False
      have "fst (nvme_process_cq_loop fuel nc sel (found + 1, cq_turn nc dev sel))"
      proof (rule Suc.IH)
        show "ring_ok (get_q (cq_turn nc dev sel) sel)" by (rule r(1))
        show "(ucast (cqe_status (cqes (get_q (cq_turn nc dev sel) sel) 0) AND 1) :: u32)
            \<noteq> ucast (cq_phase (get_q (cq_turn nc dev sel) sel) XOR 1)"
          using Suc.prems(2) r(5) [OF False] r(2) by simp
        show "unat (q_depth (get_q (cq_turn nc dev sel) sel))
            \<le> fuel + unat (cq_head (get_q (cq_turn nc dev sel) sel))"
          using Suc.prems(3) r(5) [OF False] r(3) by simp
      qed
      then show ?thesis unfolding loop_turn [OF True] .
    qed
  qed
qed

lemma phase_flip: "(ucast (p :: u8) :: u32) \<noteq> ucast (p XOR 1)"
proof
  assume "(ucast p :: u32) = ucast (p XOR 1)"
  then have "(ucast (ucast p :: u32) :: u8) = ucast (ucast (p XOR 1) :: u32)" by simp
  then have "p = p XOR 1" by (simp add: ucast_up_ucast_id is_up)
  then show False
    by (metis bit.xor_left_self of_bool_eq_1_iff xor_self_eq of_bool_eq_0_iff)
qed

lemma drain_terminates:
  "ring_ok (get_q dev sel) \<Longrightarrow>
   2 * unat (q_depth (get_q dev sel)) \<le> fuel + unat (cq_head (get_q dev sel)) \<Longrightarrow>
   fst (nvme_process_cq_loop fuel nc sel (found, dev))"
proof (induction fuel arbitrary: found dev)
  case 0
  then show ?case by (simp add: ring_ok_def)
next
  case (Suc fuel)
  show ?case
  proof (cases "apple_nvme_cqe_pending (get_q dev sel)")
    case False
    then show ?thesis by (simp add: loop_not_pending)
  next
    case True
    note r = cq_turn_ring [OF Suc.prems(1), of nc]
    show ?thesis
    proof (cases "unat (cq_head (get_q dev sel)) + 1 = unat (q_depth (get_q dev sel))")
      case wrap: True
      show ?thesis
      proof (cases "apple_nvme_cqe_pending (get_q (cq_turn nc dev sel) sel)")
        case False
        then show ?thesis unfolding loop_turn [OF True] by (simp add: loop_not_pending)
      next
        case again: True
        have "fst (nvme_process_cq_loop fuel nc sel (found + 1, cq_turn nc dev sel))"
        proof (rule drain_last_lap)
          show "ring_ok (get_q (cq_turn nc dev sel) sel)" by (rule r(1))
          have "(ucast (cqe_status (cqes (get_q dev sel) 0) AND 1) :: u32)
              = ucast (cq_phase (get_q dev sel) XOR 1)"
            using again r(4) [OF wrap] r(2) by (simp add: apple_nvme_cqe_pending_def Let_def)
          then show "(ucast (cqe_status (cqes (get_q (cq_turn nc dev sel) sel) 0) AND 1) :: u32)
              \<noteq> ucast (cq_phase (get_q (cq_turn nc dev sel) sel) XOR 1)"
            using r(4) [OF wrap] r(2) phase_flip [of "cq_phase (get_q dev sel)"]
            by (simp add: xor.assoc)
          show "unat (q_depth (get_q (cq_turn nc dev sel) sel))
              \<le> fuel + unat (cq_head (get_q (cq_turn nc dev sel) sel))"
            using Suc.prems(2) wrap r(3) r(4) [OF wrap] by simp
        qed
        then show ?thesis unfolding loop_turn [OF True] .
      qed
    next
      case False
      have "fst (nvme_process_cq_loop fuel nc sel (found + 1, cq_turn nc dev sel))"
      proof (rule Suc.IH)
        show "ring_ok (get_q (cq_turn nc dev sel) sel)" by (rule r(1))
        show "2 * unat (q_depth (get_q (cq_turn nc dev sel) sel))
            \<le> fuel + unat (cq_head (get_q (cq_turn nc dev sel) sel))"
          using Suc.prems(2) r(5) [OF False] r(3) by simp
      qed
      then show ?thesis unfolding loop_turn [OF True] .
    qed
  qed
qed

lemma process_cq_returns:
  assumes "ring_ok (get_q dev sel)" and "2 * unat (q_depth (get_q dev sel)) \<le> fuel"
  shows "\<exists>found dev'. nvme_process_cq fuel nc dev sel = Some (found, dev')"
proof -
  have "fst (nvme_process_cq_loop fuel nc sel (0, dev))"
    using assms by (intro drain_terminates) simp_all
  then show ?thesis
    by (cases "nvme_process_cq_loop fuel nc sel (0, dev)") (simp add: nvme_process_cq_def)
qed

section \<open>What the drain leaves alone, and the abort budget\<close>

lemma put_q_frame [simp]:
  "tagset (put_q dev sel q) = tagset dev"
  "admin_tagset (put_q dev sel q) = admin_tagset dev"
  "ctrl_state (put_q dev sel q) = ctrl_state dev"
  "abort_limit (put_q dev sel q) = abort_limit dev"
  "mmio (put_q dev sel q) = mmio dev"
  "hw (put_q dev sel q) = hw dev"
  "calls (put_q dev sel q) = calls dev"
  "prp_mem (put_q dev sel q) = prp_mem dev"
  by (cases sel; simp add: put_q_def)+

lemma get_q_put_q_other: "sel' \<noteq> sel \<Longrightarrow> get_q (put_q dev sel q) sel' = get_q dev sel'"
  by (cases sel; cases sel'; simp add: get_q_def put_q_def)

lemma put_rq_tagsets:
  "admin_tagset (put_rq dev IOQ tag rq) = admin_tagset dev"
  "tagset (put_rq dev ADMINQ tag rq) = tagset dev"
  "rqs (admin_tagset (put_rq dev ADMINQ tag rq)) = (rqs (admin_tagset dev))[tag := rq]"
  "rqs (tagset (put_rq dev IOQ tag rq)) = (rqs (tagset dev))[tag := rq]"
  by (simp_all add: put_rq_def put_tagset_def get_tagset_def)

lemma cq_turn_frame:
  "ctrl_state (cq_turn nc dev sel) = ctrl_state dev"
  "mmio (cq_turn nc dev sel) = mmio dev"
  "is_adminq (get_q (cq_turn nc dev sel) sel') = is_adminq (get_q dev sel')"
proof -
  show "ctrl_state (cq_turn nc dev sel) = ctrl_state dev" "mmio (cq_turn nc dev sel) = mmio dev"
    by (simp_all add: cq_turn_def Let_def)
  show "is_adminq (get_q (cq_turn nc dev sel) sel') = is_adminq (get_q dev sel')"
  proof (cases "sel' = sel")
    case True
    then show ?thesis
      by (simp add: cq_turn_def Let_def apple_nvme_update_cq_head_def)
  next
    case False
    then show ?thesis by (simp add: cq_turn_def Let_def get_q_put_q_other)
  qed
qed

lemma cq_turn_calls:
  "\<exists>new. calls (cq_turn nc dev sel) = calls dev @ new
     \<and> filter is_abort_call new = [] \<and> filter is_disable_call new = []"
  using handle_cqe_calls [of nc dev sel "cq_head (get_q dev sel)"]
  by (simp add: cq_turn_def Let_def)

lemma cq_turn_admin_tagset:
  "\<not> is_adminq (get_q dev sel) \<Longrightarrow> admin_tagset (cq_turn nc dev sel) = admin_tagset dev"
  by (simp add: cq_turn_def Let_def apple_nvme_handle_cqe_def apple_nvme_queue_tagset_def
      apple_nvme_common_complete_rq_def nvme_complete_rq_def apple_abort_endio_def
      blk_mq_free_request_def put_rq_tagsets
      split: option.splits rq_end_io.splits)

text \<open>Counting the abort commands in flight when one request of a tag set changes.\<close>

lemma filter_update_count:
  "t < length xs \<Longrightarrow>
   length (filter P (xs[t := v])) + (if P (xs ! t) then 1 else 0)
     = length (filter P xs) + (if P v then 1 else 0)"
proof (induction xs arbitrary: t)
  case Nil
  then show ?case by simp
next
  case (Cons x xs)
  show ?case
  proof (cases t)
    case 0
    then show ?thesis by simp
  next
    case (Suc t')
    then show ?thesis using Cons.IH [of t'] Cons.prems by simp
  qed
qed

lemma put_rq_pending:
  assumes "tag < length (rqs (get_tagset dev sel))"
  shows "pending_aborts (put_rq dev sel tag rq) + (if is_abort_rq (get_rq dev sel tag) then 1 else 0)
     = pending_aborts dev + (if is_abort_rq rq then 1 else 0)"
proof (cases sel)
  case ADMINQ
  then show ?thesis
    using assms filter_update_count [of tag "rqs (admin_tagset dev)" is_abort_rq rq]
    by (simp add: pending_aborts_def put_rq_tagsets get_rq_def get_tagset_def)
next
  case IOQ
  then show ?thesis
    using assms filter_update_count [of tag "rqs (tagset dev)" is_abort_rq rq]
    by (simp add: pending_aborts_def put_rq_tagsets get_rq_def get_tagset_def)
qed

lemma pending_simps [simp]:
  "pending_aborts (dev\<lparr>hw := h\<rparr>) = pending_aborts dev"
  "pending_aborts (dev\<lparr>calls := c\<rparr>) = pending_aborts dev"
  "pending_aborts (dev\<lparr>warnings := w\<rparr>) = pending_aborts dev"
  "pending_aborts (dev\<lparr>reaped := r\<rparr>) = pending_aborts dev"
  "pending_aborts (dev\<lparr>abort_limit := l\<rparr>) = pending_aborts dev"
  "pending_aborts (dev\<lparr>ctrl_state := s\<rparr>) = pending_aborts dev"
  "pending_aborts (put_q dev sel q) = pending_aborts dev"
  "pending_aborts (apple_nvmmu_inval dev sel t) = pending_aborts dev"
  "pending_aborts (apple_nvme_unmap_data dev iod) = pending_aborts dev"
  by (simp_all add: pending_aborts_def)

lemma free_request_pending:
  assumes "tag < length (rqs (get_tagset dev sel))"
  shows "pending_aborts (blk_mq_free_request dev sel tag)
           + (if is_abort_rq (get_rq dev sel tag) then 1 else 0) = pending_aborts dev"
  using put_rq_pending [OF assms, of "(get_rq dev sel tag)\<lparr>req_end_io := None\<rparr>"]
  by (simp add: blk_mq_free_request_def Let_def is_abort_rq_def)

lemma complete_rq_budget:
  assumes "tag < length (rqs (get_tagset dev sel))"
  shows "abort_budget (nvme_complete_rq dev sel tag) = abort_budget dev"
proof (cases "req_end_io (get_rq dev sel tag)")
  case None
  then have "pending_aborts (blk_mq_free_request (dev\<lparr>calls := calls dev @ [NVME_COMPLETE_RQ sel tag]\<rparr>) sel tag)
      = pending_aborts dev"
    using free_request_pending [of tag "dev\<lparr>calls := calls dev @ [NVME_COMPLETE_RQ sel tag]\<rparr>" sel] assms
    by (simp add: is_abort_rq_def get_rq_def)
  then show ?thesis using None
    by (simp add: nvme_complete_rq_def Let_def abort_budget_def get_rq_def)
next
  case (Some cb)
  show ?thesis
  proof (cases cb)
    case OTHER_END_IO
    then show ?thesis using Some
      by (simp add: nvme_complete_rq_def Let_def abort_budget_def get_rq_def)
  next
    case APPLE_ABORT_ENDIO
    define dev1 where "dev1 = dev\<lparr>calls := calls dev @ [NVME_COMPLETE_RQ sel tag],
        warnings := warnings dev @ [''Abort status''], abort_limit := abort_limit dev + 1\<rparr>"
    have "pending_aborts (blk_mq_free_request dev1 sel tag) + 1 = pending_aborts dev"
      using free_request_pending [of tag dev1 sel] assms Some APPLE_ABORT_ENDIO
      by (simp add: is_abort_rq_def get_rq_def dev1_def)
    then have "(of_nat (pending_aborts dev) :: u32)
        = of_nat (pending_aborts (blk_mq_free_request dev1 sel tag)) + 1"
      by (metis of_nat_Suc Suc_eq_plus1 add.commute)
    moreover have "nvme_complete_rq dev sel tag = blk_mq_free_request dev1 sel tag"
      using Some APPLE_ABORT_ENDIO
      by (simp add: nvme_complete_rq_def Let_def apple_abort_endio_def dev1_def get_rq_def)
    ultimately show ?thesis by (simp add: abort_budget_def dev1_def)
  qed
qed

lemma common_complete_rq_budget:
  assumes "tag < length (rqs (get_tagset dev sel))"
  shows "abort_budget (apple_nvme_common_complete_rq dev sel tag) = abort_budget dev"
proof -
  define dev2 where "dev2 =
     (let req = get_rq dev sel tag;
          iod = req_iod req;
          dev = (if integrity_rq (req_data req)
                 then dev\<lparr>calls := calls dev @
                        [DMA_UNMAP_PAGE (iod_meta_dma iod) (bv_len (integrity_vec (req_data req)))]\<rparr>
                 else dev)
      in if nr_phys_segments (req_data req) \<noteq> 0 then apple_nvme_unmap_data dev iod else dev)"
  have t: "get_tagset dev2 sel = get_tagset dev sel" "abort_budget dev2 = abort_budget dev"
    by (cases sel; simp add: dev2_def Let_def get_tagset_def abort_budget_def)+
  have "apple_nvme_common_complete_rq dev sel tag = nvme_complete_rq dev2 sel tag"
    by (simp add: apple_nvme_common_complete_rq_def dev2_def Let_def)
  then show ?thesis using complete_rq_budget [of tag dev2 sel] assms t by simp
qed

lemma handle_cqe_budget:
  "abort_budget (apple_nvme_handle_cqe nc dev sel idx) = abort_budget dev"
proof -
  define dev1 where "dev1 = apple_nvmmu_inval
      (dev\<lparr>reaped := reaped dev @ [(sel, idx, cq_phase (get_q dev sel), cqes (get_q dev sel) (unat idx))]\<rparr>)
      sel (nvme_tag_from_cid nc (cqe_command_id (cqes (get_q dev sel) (unat idx))))"
  have b1: "abort_budget dev1 = abort_budget dev" by (simp add: dev1_def abort_budget_def)
  have "abort_budget (apple_nvme_common_complete_rq dev1 ts tag) = abort_budget dev"
    if "find_rq nc dev1 ts cid = Some tag" for ts cid tag
    using that common_complete_rq_budget [of tag dev1 ts] b1
    by (simp add: find_rq_def Let_def split: if_splits)
  then show ?thesis using b1
    by (auto simp: apple_nvme_handle_cqe_def Let_def dev1_def [symmetric] abort_budget_def
        split: option.splits)
qed

lemma cq_turn_budget: "abort_budget (cq_turn nc dev sel) = abort_budget dev"
  using handle_cqe_budget [of nc dev sel "cq_head (get_q dev sel)"]
  by (simp add: cq_turn_def Let_def abort_budget_def)

section \<open>Properties of the timeout handler\<close>

lemma loop_budget:
  "abort_budget (snd (snd (nvme_process_cq_loop fuel nc sel (found, dev)))) = abort_budget dev"
  by (rule loop_invariant [where P = "\<lambda>d. abort_budget d = abort_budget dev"])
    (simp_all add: cq_turn_budget)

lemma loop_frame:
  "ctrl_state (snd (snd (nvme_process_cq_loop fuel nc sel (found, dev)))) = ctrl_state dev
   \<and> mmio (snd (snd (nvme_process_cq_loop fuel nc sel (found, dev)))) = mmio dev
   \<and> (\<forall>sel'. is_adminq (get_q (snd (snd (nvme_process_cq_loop fuel nc sel (found, dev)))) sel')
               = is_adminq (get_q dev sel'))
   \<and> (\<not> is_adminq (get_q dev sel) \<longrightarrow>
         admin_tagset (snd (snd (nvme_process_cq_loop fuel nc sel (found, dev)))) = admin_tagset dev)
   \<and> (\<exists>new. calls (snd (snd (nvme_process_cq_loop fuel nc sel (found, dev)))) = calls dev @ new
         \<and> filter is_abort_call new = [] \<and> filter is_disable_call new = [])"
proof (rule loop_invariant [where P = "\<lambda>d. ctrl_state d = ctrl_state dev
   \<and> mmio d = mmio dev
   \<and> (\<forall>sel'. is_adminq (get_q d sel') = is_adminq (get_q dev sel'))
   \<and> (\<not> is_adminq (get_q dev sel) \<longrightarrow> admin_tagset d = admin_tagset dev)
   \<and> (\<exists>new. calls d = calls dev @ new
         \<and> filter is_abort_call new = [] \<and> filter is_disable_call new = [])"])
  show "ctrl_state dev = ctrl_state dev \<and> mmio dev = mmio dev
    \<and> (\<forall>sel'. is_adminq (get_q dev sel') = is_adminq (get_q dev sel'))
    \<and> (\<not> is_adminq (get_q dev sel) \<longrightarrow> admin_tagset dev = admin_tagset dev)
    \<and> (\<exists>new. calls dev = calls dev @ new
         \<and> filter is_abort_call new = [] \<and> filter is_disable_call new = [])"
    by simp
next
  fix d
  assume p: "ctrl_state d = ctrl_state dev \<and> mmio d = mmio dev
    \<and> (\<forall>sel'. is_adminq (get_q d sel') = is_adminq (get_q dev sel'))
    \<and> (\<not> is_adminq (get_q dev sel) \<longrightarrow> admin_tagset d = admin_tagset dev)
    \<and> (\<exists>new. calls d = calls dev @ new
         \<and> filter is_abort_call new = [] \<and> filter is_disable_call new = [])"
  obtain new where new: "calls d = calls dev @ new" "filter is_abort_call new = []"
    "filter is_disable_call new = []"
    using p by blast
  obtain new' where new': "calls (cq_turn nc d sel) = calls d @ new'"
    "filter is_abort_call new' = []" "filter is_disable_call new' = []"
    using cq_turn_calls [of nc d sel] by blast
  have c: "calls (cq_turn nc d sel) = calls dev @ (new @ new')"
    "filter is_abort_call (new @ new') = []" "filter is_disable_call (new @ new') = []"
    using new new' by simp_all
  have a: "\<not> is_adminq (get_q dev sel) \<longrightarrow> admin_tagset (cq_turn nc d sel) = admin_tagset dev"
    using p cq_turn_admin_tagset [of d sel nc] by simp
  show "ctrl_state (cq_turn nc d sel) = ctrl_state dev \<and> mmio (cq_turn nc d sel) = mmio dev
    \<and> (\<forall>sel'. is_adminq (get_q (cq_turn nc d sel) sel') = is_adminq (get_q dev sel'))
    \<and> (\<not> is_adminq (get_q dev sel) \<longrightarrow> admin_tagset (cq_turn nc d sel) = admin_tagset dev)
    \<and> (\<exists>new. calls (cq_turn nc d sel) = calls dev @ new
         \<and> filter is_abort_call new = [] \<and> filter is_disable_call new = [])"
    using p a c by (simp only: cq_turn_frame) blast
qed

lemma poll_result:
  assumes "apple_nvme_poll_irqdisable fuel nc dev sel = Some dev1"
  shows "ctrl_state dev1 = ctrl_state dev"
    and "mmio dev1 = mmio dev"
    and "is_adminq (get_q dev1 sel') = is_adminq (get_q dev sel')"
    and "\<not> is_adminq (get_q dev sel) \<Longrightarrow> admin_tagset dev1 = admin_tagset dev"
    and "abort_budget dev1 = abort_budget dev"
    and "\<exists>new. calls dev1 = calls dev @ new
           \<and> filter is_abort_call new = [] \<and> filter is_disable_call new = []"
proof -
  define d0 where "d0 = dev\<lparr>calls := calls dev @ [DISABLE_IRQ]\<rparr>"
  define d2 where "d2 = snd (snd (nvme_process_cq_loop fuel nc sel (0, d0)))"
  have "dev1 = d2\<lparr>hw := hw dev1, calls := calls d2 @ [ENABLE_IRQ]\<rparr>"
    using assms
    by (cases "nvme_process_cq_loop fuel nc sel (0, d0)")
      (auto simp: apple_nvme_poll_irqdisable_def nvme_process_cq_def Let_def d0_def [symmetric]
        d2_def apple_nvme_ring_cq_doorbell_def split: if_splits bool.splits)
  then obtain h where dev1: "dev1 = d2\<lparr>hw := h, calls := calls d2 @ [ENABLE_IRQ]\<rparr>" by blast
  note f = loop_frame [of fuel nc sel 0 d0, folded d2_def]
  have q0: "get_q d0 s = get_q dev s" for s by (simp add: d0_def)
  show "ctrl_state dev1 = ctrl_state dev" using f by (simp add: dev1 d0_def)
  show "mmio dev1 = mmio dev" using f by (simp add: dev1 d0_def)
  show "is_adminq (get_q dev1 sel') = is_adminq (get_q dev sel')"
    using f by (simp add: dev1 q0)
  show "admin_tagset dev1 = admin_tagset dev" if "\<not> is_adminq (get_q dev sel)"
    using f that by (simp add: dev1 q0 d0_def)
  show "abort_budget dev1 = abort_budget dev"
    using loop_budget [of fuel nc sel 0 d0, folded d2_def]
    by (simp add: dev1 d0_def abort_budget_def)
  obtain new where new: "calls d2 = calls d0 @ new" "filter is_abort_call new = []"
    "filter is_disable_call new = []"
    using f by blast
  have "calls dev1 = calls dev @ (DISABLE_IRQ # new @ [ENABLE_IRQ])"
    using new by (simp add: dev1 d0_def)
  moreover have "filter is_abort_call (DISABLE_IRQ # new @ [ENABLE_IRQ]) = []"
    "filter is_disable_call (DISABLE_IRQ # new @ [ENABLE_IRQ]) = []"
    using new by simp_all
  ultimately show "\<exists>new. calls dev1 = calls dev @ new
           \<and> filter is_abort_call new = [] \<and> filter is_disable_call new = []"
    by blast
qed

lemma poll_returns:
  assumes "ring_ok (get_q dev sel)" and "2 * unat (q_depth (get_q dev sel)) \<le> fuel"
  shows "\<exists>dev1. apple_nvme_poll_irqdisable fuel nc dev sel = Some dev1"
proof -
  have "\<exists>found dev'. nvme_process_cq fuel nc (dev\<lparr>calls := calls dev @ [DISABLE_IRQ]\<rparr>) sel
      = Some (found, dev')"
    using assms by (intro process_cq_returns) simp_all
  then show ?thesis by (auto simp: apple_nvme_poll_irqdisable_def Let_def)
qed

lemma timeout_drain_result:
  assumes "ring_ok (get_q dev (rq_nvmeq req))"
    and "2 * unat (q_depth (get_q dev (rq_nvmeq req))) \<le> fuel"
  obtains dev1 where "timeout_drain fuel nc dev req = Some dev1"
    and "ctrl_state dev1 = ctrl_state dev"
    and "is_adminq (get_q dev1 (rq_nvmeq req)) = is_adminq (get_q dev (rq_nvmeq req))"
    and "\<not> is_adminq (get_q dev (rq_nvmeq req)) \<Longrightarrow> admin_tagset dev1 = admin_tagset dev"
    and "abort_budget dev1 = abort_budget dev"
    and "\<exists>new. calls dev1 = calls dev @ new
           \<and> filter is_abort_call new = [] \<and> filter is_disable_call new = []"
proof -
  obtain dev1 where d: "apple_nvme_poll_irqdisable fuel nc (dev\<lparr>hw := hw dev @ [READL NVME_REG_CSTS]\<rparr>)
      (rq_nvmeq req) = Some dev1"
    using poll_returns [of "dev\<lparr>hw := hw dev @ [READL NVME_REG_CSTS]\<rparr>" "rq_nvmeq req" fuel nc] assms
    by auto
  note p = poll_result [OF d]
  show ?thesis
  proof (rule that [of dev1])
    show "timeout_drain fuel nc dev req = Some dev1" using d by (simp add: timeout_drain_def)
    show "ctrl_state dev1 = ctrl_state dev" using p(1) by simp
    show "is_adminq (get_q dev1 (rq_nvmeq req)) = is_adminq (get_q dev (rq_nvmeq req))"
      using p(3) [of "rq_nvmeq req"] by simp
    show "admin_tagset dev1 = admin_tagset dev" if "\<not> is_adminq (get_q dev (rq_nvmeq req))"
      using p(4) that by simp
    show "abort_budget dev1 = abort_budget dev" using p(5) by (simp add: abort_budget_def)
    show "\<exists>new. calls dev1 = calls dev @ new
           \<and> filter is_abort_call new = [] \<and> filter is_disable_call new = []"
      using p(6) by simp
  qed
qed

lemma should_reset_hw [simp]:
  "apple_nvme_should_reset (dev\<lparr>hw := h\<rparr>) csts = apple_nvme_should_reset dev csts"
  by (simp add: apple_nvme_should_reset_def)

lemma timeout_after_drain:
  assumes "\<not> apple_nvme_should_reset dev (mmio dev NVME_REG_CSTS)"
    and "timeout_drain fuel nc dev req = Some dev1"
  shows "apple_nvme_timeout fuel nc env dev req =
     (if blk_mq_request_completed env
      then Some (BLK_EH_DONE,
                 dev1\<lparr>warnings := warnings dev1 @ [''timeout, completion polled'']\<rparr>, req)
      else
       (case ctrl_state dev1 of
          NVME_CTRL_CONNECTING \<Rightarrow>
            Some (timeout_disable_shutdown
                    (dev1\<lparr>calls := calls dev1 @ [NVME_CHANGE_CTRL_STATE NVME_CTRL_DELETING],
                          ctrl_state := NVME_CTRL_DELETING\<rparr>) req)
        | NVME_CTRL_DELETING \<Rightarrow> Some (timeout_disable_shutdown dev1 req)
        | NVME_CTRL_RESETTING \<Rightarrow> Some (BLK_EH_RESET_TIMER, dev1, req)
        | _ \<Rightarrow>
           if is_adminq (get_q dev1 (rq_nvmeq req)) \<or> rq_aborted req \<noteq> 0
           then Some (BLK_EH_DONE,
                      dev1\<lparr>warnings := warnings dev1 @ [''timeout, reset controller''],
                           calls := calls dev1 @ [APPLE_NVME_DEV_DISABLE False, NVME_RESET_CTRL]\<rparr>,
                      req\<lparr>rq_nvme_flags := rq_nvme_flags req OR NVME_REQ_CANCELLED\<rparr>)
           else if sint (abort_limit dev1 - 1) < 0
           then Some (BLK_EH_RESET_TIMER, dev1, req)
           else
            (case nvme_alloc_request env of
               None \<Rightarrow>
                 Some (BLK_EH_RESET_TIMER,
                       dev1\<lparr>warnings := warnings dev1 @ [''timeout, aborting'']\<rparr>,
                       req\<lparr>rq_aborted := 1\<rparr>)
             | Some (tag, abort_req) \<Rightarrow>
                 Some (BLK_EH_RESET_TIMER,
                       blk_execute_rq_nowait
                         (dev1\<lparr>abort_limit := abort_limit dev1 - 1,
                               warnings := warnings dev1 @ [''timeout, aborting'']\<rparr>)
                         tag abort_req
                         \<lparr>abort_opcode = nvme_admin_abort_cmd,
                          abort_cid = word_of_int (rq_tag req), abort_sqid = 1\<rparr>
                         APPLE_ABORT_ENDIO,
                       req\<lparr>rq_aborted := 1\<rparr>))))"
  using assms
  by (cases "ctrl_state dev1")
    (simp_all add: apple_nvme_timeout_def timeout_drain_def Let_def split: option.splits)



text \<open>
  Claim C7, as the code has it. Take the first timeout of a request of the I/O queue that
  has not been aborted, on a ring in order with fuel for two laps, with the controller
  live, no fatal status, and the request not reported completed after the forced drain.
  The drain comes to an end, and the handler re-arms the timer
  (\<open>BLK_EH_RESET_TIMER\<close>) without a device disable among the calls it made, the
  drain's included. With the budget exhausted (the counter, as the drain left it, goes
  negative when decremented) the handler does nothing after the drain: device and request
  are as the drain left them. With a slot available it marks the request aborted; when
  \<open>nvme_alloc_request\<close> fails it makes no further call and the counter is as the drain
  left it; when it returns a request, the one call after the drain issues the abort
  command for the tag of the request, with \<open>apple_abort_endio\<close> as its callback, and
  the counter is one less.
\<close>

theorem C7_first_io_timeout_aborts_or_rearms:
  assumes "ring_ok (get_q dev (rq_nvmeq req))"
    and "2 * unat (q_depth (get_q dev (rq_nvmeq req))) \<le> fuel"
    and "ctrl_state dev = NVME_CTRL_LIVE"
    and "mmio dev NVME_REG_CSTS AND NVME_CSTS_CFS = 0"
    and "\<not> blk_mq_request_completed env"
    and "\<not> is_adminq (get_q dev (rq_nvmeq req))"
    and "rq_aborted req = 0"
  shows "\<exists>dev1 dev' req'.
       timeout_drain fuel nc dev req = Some dev1
     \<and> apple_nvme_timeout fuel nc env dev req = Some (BLK_EH_RESET_TIMER, dev', req')
     \<and> filter is_disable_call (new_calls dev dev') = []
     \<and> (sint (abort_limit dev1 - 1) < 0 \<longrightarrow> dev' = dev1 \<and> req' = req)
     \<and> (\<not> sint (abort_limit dev1 - 1) < 0 \<longrightarrow> req' = req\<lparr>rq_aborted := 1\<rparr>)
     \<and> (\<not> sint (abort_limit dev1 - 1) < 0 \<and> nvme_alloc_request env = None \<longrightarrow>
            new_calls dev1 dev' = []
          \<and> filter is_abort_call (new_calls dev dev') = []
          \<and> abort_limit dev' = abort_limit dev1)
     \<and> (\<forall>tag abort_req.
            \<not> sint (abort_limit dev1 - 1) < 0 \<and> nvme_alloc_request env = Some (tag, abort_req) \<longrightarrow>
            new_calls dev1 dev' =
              [BLK_EXECUTE_RQ_NOWAIT tag
                 \<lparr>abort_opcode = nvme_admin_abort_cmd,
                  abort_cid = word_of_int (rq_tag req), abort_sqid = 1\<rparr> APPLE_ABORT_ENDIO]
          \<and> abort_limit dev' = abort_limit dev1 - 1)"
proof -
  obtain dev1 where d: "timeout_drain fuel nc dev req = Some dev1"
    and st: "ctrl_state dev1 = ctrl_state dev"
    and adm: "is_adminq (get_q dev1 (rq_nvmeq req)) = is_adminq (get_q dev (rq_nvmeq req))"
    and c: "\<exists>new. calls dev1 = calls dev @ new
           \<and> filter is_abort_call new = [] \<and> filter is_disable_call new = []"
    using timeout_drain_result [OF assms(1,2), of nc] by metis
  obtain new where new: "calls dev1 = calls dev @ new" "filter is_abort_call new = []"
    "filter is_disable_call new = []"
    using c by blast
  have nr: "\<not> apple_nvme_should_reset dev (mmio dev NVME_REG_CSTS)"
    using assms(3,4) by (simp add: apple_nvme_should_reset_def)
  note t = timeout_after_drain [OF nr d, of env]
  show ?thesis
  proof (cases "sint (abort_limit dev1 - 1) < 0")
    case True
    have "apple_nvme_timeout fuel nc env dev req = Some (BLK_EH_RESET_TIMER, dev1, req)"
      using t assms(3,5,6,7) st adm True by simp
    then show ?thesis using d True new by (simp add: new_calls_def)
  next
    case False
    show ?thesis
    proof (cases "nvme_alloc_request env")
      case None
      have "apple_nvme_timeout fuel nc env dev req =
          Some (BLK_EH_RESET_TIMER, dev1\<lparr>warnings := warnings dev1 @ [''timeout, aborting'']\<rparr>,
                req\<lparr>rq_aborted := 1\<rparr>)"
        using t assms(3,5,6,7) st adm False None by simp
      then show ?thesis using d False None new by (simp add: new_calls_def)
    next
      case (Some a)
      obtain tag abort_req where a: "a = (tag, abort_req)" by (cases a)
      define cmd where "cmd = \<lparr>abort_opcode = nvme_admin_abort_cmd,
          abort_cid = word_of_int (rq_tag req), abort_sqid = 1\<rparr>"
      define dev' where "dev' = blk_execute_rq_nowait
          (dev1\<lparr>abort_limit := abort_limit dev1 - 1,
                warnings := warnings dev1 @ [''timeout, aborting'']\<rparr>)
          tag abort_req cmd APPLE_ABORT_ENDIO"
      have r: "apple_nvme_timeout fuel nc env dev req =
          Some (BLK_EH_RESET_TIMER, dev', req\<lparr>rq_aborted := 1\<rparr>)"
        using t assms(3,5,6,7) st adm False Some a by (simp add: dev'_def cmd_def)
      have c': "calls dev' = calls dev1 @ [BLK_EXECUTE_RQ_NOWAIT tag cmd APPLE_ABORT_ENDIO]"
        "abort_limit dev' = abort_limit dev1 - 1"
        by (simp_all add: dev'_def blk_execute_rq_nowait_def Let_def)
      show ?thesis
        using d r False Some a new c' by (simp add: new_calls_def cmd_def)
    qed
  qed
qed

theorem C7_first_io_timeout_witness:
  "map_option (\<lambda>(r, dev, req). (r, calls dev, cq_head (ioq dev), abort_limit dev, rq_aborted req))
     (apple_nvme_timeout 8 nc0 env_alloc_ok dev_two_cqes rq0)
   = Some (BLK_EH_RESET_TIMER,
           [DISABLE_IRQ, NVME_COMPLETE_RQ IOQ 0, BLK_MQ_FREE_REQUEST IOQ 0,
            NVME_COMPLETE_RQ IOQ 1, BLK_MQ_FREE_REQUEST IOQ 1, ENABLE_IRQ,
            BLK_EXECUTE_RQ_NOWAIT 3 \<lparr>abort_opcode = 8, abort_cid = 5, abort_sqid = 1\<rparr>
              APPLE_ABORT_ENDIO],
           2, 0, 1)"
proof -
  have h: "ring_ok (get_q dev_two_cqes (rq_nvmeq rq0))"
    "2 * unat (q_depth (get_q dev_two_cqes (rq_nvmeq rq0))) \<le> 8"
    "ctrl_state dev_two_cqes = NVME_CTRL_LIVE"
    "mmio dev_two_cqes NVME_REG_CSTS AND NVME_CSTS_CFS = 0"
    "\<not> blk_mq_request_completed env_alloc_ok"
    "\<not> is_adminq (get_q dev_two_cqes (rq_nvmeq rq0))"
    "rq_aborted rq0 = 0"
    by (simp_all add: ring_ok_def dev_two_cqes_def dev0_def q0_def env_alloc_ok_def rq0_def
        get_q_def)
  have dr: "map_option (\<lambda>dev. (calls dev, cq_head (ioq dev), abort_limit dev))
      (timeout_drain 8 nc0 dev_two_cqes rq0)
    = Some ([DISABLE_IRQ, NVME_COMPLETE_RQ IOQ 0, BLK_MQ_FREE_REQUEST IOQ 0,
             NVME_COMPLETE_RQ IOQ 1, BLK_MQ_FREE_REQUEST IOQ 1, ENABLE_IRQ], 2, 1)"
    by code_simp
  have e: "nvme_alloc_request env_alloc_ok = Some (3, rq_idle)" "rq_tag rq0 = 5"
    "nvme_admin_abort_cmd = 8"
    by (simp_all add: env_alloc_ok_def rq0_def nvme_admin_abort_cmd_def)
  obtain dev1 dev' req' where
    d: "timeout_drain 8 nc0 dev_two_cqes rq0 = Some dev1"
    and t: "apple_nvme_timeout 8 nc0 env_alloc_ok dev_two_cqes rq0 = Some (BLK_EH_RESET_TIMER, dev', req')"
    and rq: "\<not> sint (abort_limit dev1 - 1) < 0 \<longrightarrow> req' = rq0\<lparr>rq_aborted := 1\<rparr>"
    and ab: "\<forall>tag abort_req.
            \<not> sint (abort_limit dev1 - 1) < 0
            \<and> nvme_alloc_request env_alloc_ok = Some (tag, abort_req) \<longrightarrow>
            new_calls dev1 dev' =
              [BLK_EXECUTE_RQ_NOWAIT tag
                 \<lparr>abort_opcode = nvme_admin_abort_cmd,
                  abort_cid = word_of_int (rq_tag rq0), abort_sqid = 1\<rparr> APPLE_ABORT_ENDIO]
          \<and> abort_limit dev' = abort_limit dev1 - 1"
    using C7_first_io_timeout_aborts_or_rearms [OF h, of nc0] by blast
  have d1: "calls dev1 = [DISABLE_IRQ, NVME_COMPLETE_RQ IOQ 0, BLK_MQ_FREE_REQUEST IOQ 0,
             NVME_COMPLETE_RQ IOQ 1, BLK_MQ_FREE_REQUEST IOQ 1, ENABLE_IRQ]"
    "cq_head (ioq dev1) = 2" "abort_limit dev1 = 1"
    using dr d by simp_all
  have n: "\<not> sint (abort_limit dev1 - 1) < 0" by (simp add: d1)
  have a: "new_calls dev1 dev' =
      [BLK_EXECUTE_RQ_NOWAIT 3 \<lparr>abort_opcode = 8, abort_cid = 5, abort_sqid = 1\<rparr> APPLE_ABORT_ENDIO]"
    "abort_limit dev' = 0"
    using ab n e d1 by simp_all
  have h2: "map_option (\<lambda>(r, dev, req). (take 6 (calls dev), cq_head (ioq dev)))
     (apple_nvme_timeout 8 nc0 env_alloc_ok dev_two_cqes rq0)
   = Some ([DISABLE_IRQ, NVME_COMPLETE_RQ IOQ 0, BLK_MQ_FREE_REQUEST IOQ 0,
            NVME_COMPLETE_RQ IOQ 1, BLK_MQ_FREE_REQUEST IOQ 1, ENABLE_IRQ], 2)"
    by code_simp
  have c: "take 6 (calls dev') = calls dev1" "cq_head (ioq dev') = 2"
    using h2 t d1 by simp_all
  have "calls dev' = take 6 (calls dev') @ drop 6 (calls dev')" by simp
  also have "drop 6 (calls dev') = new_calls dev1 dev'"
  proof -
    have "length (calls dev1) = 6" by (simp add: d1)
    then show ?thesis by (simp only: new_calls_def)
  qed
  finally have "calls dev' = calls dev1 @ new_calls dev1 dev'" using c by simp
  then show ?thesis using t rq n a c d1 by simp
qed

text \<open>
  The claim promises an abort command whenever a slot is available. With a slot
  available and \<open>nvme_alloc_request\<close> failing, the request is marked aborted and no
  abort command is issued.
\<close>

theorem C7_alloc_failure_counterexample:
  "ctrl_state dev0 = NVME_CTRL_LIVE
   \<and> mmio dev0 NVME_REG_CSTS AND NVME_CSTS_CFS = 0
   \<and> \<not> blk_mq_request_completed env_alloc_fails
   \<and> \<not> is_adminq (get_q dev0 (rq_nvmeq rq0))
   \<and> rq_aborted rq0 = 0
   \<and> 0 < sint (abort_limit dev0)
   \<and> map_option (\<lambda>(r, dev, req). (r, rq_aborted req, filter is_abort_call (calls dev), abort_limit dev))
        (apple_nvme_timeout 8 nc0 env_alloc_fails dev0 rq0)
      = Some (BLK_EH_RESET_TIMER, 1, [], 1)"
proof -
  have "map_option (\<lambda>(r, dev, req). (r, rq_aborted req, filter is_abort_call (calls dev), abort_limit dev))
        (apple_nvme_timeout 8 nc0 env_alloc_fails dev0 rq0)
      = Some (BLK_EH_RESET_TIMER, 1, [], 1)"
    by code_simp
  then show ?thesis
    by (simp add: dev0_def env_alloc_fails_def rq0_def get_q_def q0_def)
qed

lemma timeout_tail:
  assumes "\<not> apple_nvme_should_reset dev (mmio dev NVME_REG_CSTS)"
    and "timeout_drain fuel nc dev req = Some dev1"
    and "apple_nvme_timeout fuel nc env dev req = Some (r, dev', req')"
  shows "(\<exists>tag abort_req.
            \<not> is_adminq (get_q dev1 (rq_nvmeq req))
          \<and> nvme_alloc_request env = Some (tag, abort_req)
          \<and> dev' = blk_execute_rq_nowait
                     (dev1\<lparr>abort_limit := abort_limit dev1 - 1,
                           warnings := warnings dev1 @ [''timeout, aborting'']\<rparr>)
                     tag abort_req
                     \<lparr>abort_opcode = nvme_admin_abort_cmd,
                      abort_cid = word_of_int (rq_tag req), abort_sqid = 1\<rparr>
                     APPLE_ABORT_ENDIO)
       \<or> (abort_limit dev' = abort_limit dev1 \<and> tagset dev' = tagset dev1
          \<and> admin_tagset dev' = admin_tagset dev1
          \<and> (\<exists>new. calls dev' = calls dev1 @ new \<and> filter is_abort_call new = []))"
  using assms(3) unfolding timeout_after_drain [OF assms(1,2)]
  by (cases "ctrl_state dev1")
    (auto simp: timeout_disable_shutdown_def Let_def split: if_splits option.splits)

lemma execute_rq_budget:
  assumes "tag < length (rqs (admin_tagset dev))"
    and "\<not> is_abort_rq (rqs (admin_tagset dev) ! tag)"
  shows "pending_aborts (blk_execute_rq_nowait dev tag rq cmd APPLE_ABORT_ENDIO)
           = pending_aborts dev + 1"
    and "is_abort_rq (get_rq (blk_execute_rq_nowait dev tag rq cmd APPLE_ABORT_ENDIO) ADMINQ tag)"
    and "abort_limit (blk_execute_rq_nowait dev tag rq cmd APPLE_ABORT_ENDIO) = abort_limit dev"
    and "calls (blk_execute_rq_nowait dev tag rq cmd APPLE_ABORT_ENDIO)
           = calls dev @ [BLK_EXECUTE_RQ_NOWAIT tag cmd APPLE_ABORT_ENDIO]"
    and "length (rqs (get_tagset (blk_execute_rq_nowait dev tag rq cmd APPLE_ABORT_ENDIO) ADMINQ))
           = length (rqs (admin_tagset dev))"
proof -
  show "pending_aborts (blk_execute_rq_nowait dev tag rq cmd APPLE_ABORT_ENDIO)
           = pending_aborts dev + 1"
    using put_rq_pending [of tag dev ADMINQ "rq\<lparr>req_end_io := Some APPLE_ABORT_ENDIO\<rparr>"] assms
    by (simp add: blk_execute_rq_nowait_def Let_def get_tagset_def get_rq_def is_abort_rq_def)
  show "is_abort_rq (get_rq (blk_execute_rq_nowait dev tag rq cmd APPLE_ABORT_ENDIO) ADMINQ tag)"
    using assms(1)
    by (simp add: blk_execute_rq_nowait_def Let_def get_rq_def get_tagset_def put_rq_tagsets
        is_abort_rq_def)
  show "abort_limit (blk_execute_rq_nowait dev tag rq cmd APPLE_ABORT_ENDIO) = abort_limit dev"
    and "calls (blk_execute_rq_nowait dev tag rq cmd APPLE_ABORT_ENDIO)
           = calls dev @ [BLK_EXECUTE_RQ_NOWAIT tag cmd APPLE_ABORT_ENDIO]"
    by (simp_all add: blk_execute_rq_nowait_def Let_def)
  show "length (rqs (get_tagset (blk_execute_rq_nowait dev tag rq cmd APPLE_ABORT_ENDIO) ADMINQ))
           = length (rqs (admin_tagset dev))"
    by (simp add: blk_execute_rq_nowait_def Let_def get_tagset_def put_rq_tagsets)
qed

lemma timeout_budget:
  assumes fresh: "alloc_fresh env dev"
    and run: "apple_nvme_timeout fuel nc env dev req = Some (r, dev', req')"
  shows "abort_budget dev' = abort_budget dev
     \<and> (\<forall>tag cmd cb. BLK_EXECUTE_RQ_NOWAIT tag cmd cb \<in> set (new_calls dev dev') \<longrightarrow>
            cb = APPLE_ABORT_ENDIO \<and> tag < length (rqs (get_tagset dev' ADMINQ))
          \<and> is_abort_rq (get_rq dev' ADMINQ tag))"
proof (cases "apple_nvme_should_reset dev (mmio dev NVME_REG_CSTS)")
  case True
  then have "dev' = dev\<lparr>hw := hw dev @ [READL NVME_REG_CSTS],
      warnings := warnings dev @ [''controller is down; will reset''],
      calls := calls dev @ [APPLE_NVME_DEV_DISABLE False, NVME_RESET_CTRL]\<rparr>"
    using run by (simp add: apple_nvme_timeout_def Let_def)
  then show ?thesis by (simp add: abort_budget_def new_calls_def)
next
  case False
  obtain dev1 where d: "timeout_drain fuel nc dev req = Some dev1"
    using run False
    by (cases "timeout_drain fuel nc dev req")
      (simp_all add: apple_nvme_timeout_def timeout_drain_def Let_def)
  note p = poll_result [OF d [unfolded timeout_drain_def]]
  have b1: "abort_budget dev1 = abort_budget dev" using p(5) by (simp add: abort_budget_def)
  obtain new where new: "calls dev1 = calls dev @ new" "filter is_abort_call new = []"
    using p(6) by auto
  have quiet: "BLK_EXECUTE_RQ_NOWAIT tag cmd cb \<notin> set n" if "filter is_abort_call n = []"
    for tag cmd cb n
    using that by (auto simp: filter_empty_conv)
  from timeout_tail [OF False d run] show ?thesis
  proof
    assume "\<exists>tag abort_req.
            \<not> is_adminq (get_q dev1 (rq_nvmeq req))
          \<and> nvme_alloc_request env = Some (tag, abort_req)
          \<and> dev' = blk_execute_rq_nowait
                     (dev1\<lparr>abort_limit := abort_limit dev1 - 1,
                           warnings := warnings dev1 @ [''timeout, aborting'']\<rparr>)
                     tag abort_req
                     \<lparr>abort_opcode = nvme_admin_abort_cmd,
                      abort_cid = word_of_int (rq_tag req), abort_sqid = 1\<rparr>
                     APPLE_ABORT_ENDIO"
    then obtain tag abort_req where
      io: "\<not> is_adminq (get_q dev1 (rq_nvmeq req))"
      and al: "nvme_alloc_request env = Some (tag, abort_req)"
      and dev': "dev' = blk_execute_rq_nowait
                     (dev1\<lparr>abort_limit := abort_limit dev1 - 1,
                           warnings := warnings dev1 @ [''timeout, aborting'']\<rparr>)
                     tag abort_req
                     \<lparr>abort_opcode = nvme_admin_abort_cmd,
                      abort_cid = word_of_int (rq_tag req), abort_sqid = 1\<rparr>
                     APPLE_ABORT_ENDIO"
      by blast
    define dev2 where "dev2 = dev1\<lparr>abort_limit := abort_limit dev1 - 1,
                           warnings := warnings dev1 @ [''timeout, aborting'']\<rparr>"
    have "\<not> is_adminq (get_q (dev\<lparr>hw := hw dev @ [READL NVME_REG_CSTS]\<rparr>) (rq_nvmeq req))"
      using io p(3) [of "rq_nvmeq req"] by simp
    then have ts: "admin_tagset dev1 = admin_tagset dev" using p(4) by simp
    have f: "tag < length (rqs (admin_tagset dev2))" "\<not> is_abort_rq (rqs (admin_tagset dev2) ! tag)"
      using fresh al ts by (simp_all add: alloc_fresh_def dev2_def)
    note e = execute_rq_budget [OF f, of abort_req "\<lparr>abort_opcode = nvme_admin_abort_cmd,
                      abort_cid = word_of_int (rq_tag req), abort_sqid = 1\<rparr>",
                      folded dev' [unfolded dev2_def [symmetric]]]
    have "abort_budget dev' = abort_limit dev1 - 1 + of_nat (pending_aborts dev1 + 1)"
      using e(1,3) by (simp add: abort_budget_def dev2_def)
    then have "abort_budget dev' = abort_budget dev1" by (simp add: abort_budget_def)
    moreover have "new_calls dev dev' = new @ [BLK_EXECUTE_RQ_NOWAIT tag \<lparr>abort_opcode = nvme_admin_abort_cmd,
                      abort_cid = word_of_int (rq_tag req), abort_sqid = 1\<rparr> APPLE_ABORT_ENDIO]"
      using e(4) new by (simp add: new_calls_def dev2_def)
    ultimately show ?thesis using b1 e(2) e(5) f(1) quiet [OF new(2)] by auto
  next
    assume "abort_limit dev' = abort_limit dev1 \<and> tagset dev' = tagset dev1
          \<and> admin_tagset dev' = admin_tagset dev1
          \<and> (\<exists>new. calls dev' = calls dev1 @ new \<and> filter is_abort_call new = [])"
    then obtain new' where s: "abort_limit dev' = abort_limit dev1" "tagset dev' = tagset dev1"
      "admin_tagset dev' = admin_tagset dev1" "calls dev' = calls dev1 @ new'"
      "filter is_abort_call new' = []"
      by blast
    have "abort_budget dev' = abort_budget dev1"
      using s(1,2,3) by (simp add: abort_budget_def pending_aborts_def)
    moreover have "new_calls dev dev' = new @ new'" using s(4) new by (simp add: new_calls_def)
    ultimately show ?thesis using b1 quiet [OF new(2)] quiet [OF s(5)] by auto
  qed
qed

lemma complete_abort_once:
  assumes "t < length (rqs (get_tagset dev sel))" and "is_abort_rq (get_rq dev sel t)"
  shows "abort_limit (apple_nvme_common_complete_rq dev sel t) = abort_limit dev + 1"
    and "pending_aborts (apple_nvme_common_complete_rq dev sel t) + 1 = pending_aborts dev"
    and "\<not> is_abort_rq (get_rq (apple_nvme_common_complete_rq dev sel t) sel t)"
proof -
  define dev2 where "dev2 =
     (let req = get_rq dev sel t;
          iod = req_iod req;
          dev = (if integrity_rq (req_data req)
                 then dev\<lparr>calls := calls dev @
                        [DMA_UNMAP_PAGE (iod_meta_dma iod) (bv_len (integrity_vec (req_data req)))]\<rparr>
                 else dev)
      in if nr_phys_segments (req_data req) \<noteq> 0 then apple_nvme_unmap_data dev iod else dev)"
  have t2: "get_tagset dev2 sel = get_tagset dev sel" "abort_limit dev2 = abort_limit dev"
    "pending_aborts dev2 = pending_aborts dev"
    by (cases sel; simp add: dev2_def Let_def get_tagset_def)+
  define dev3 where "dev3 = dev2\<lparr>calls := calls dev2 @ [NVME_COMPLETE_RQ sel t],
      warnings := warnings dev2 @ [''Abort status''], abort_limit := abort_limit dev2 + 1\<rparr>"
  have t3: "get_tagset dev3 sel = get_tagset dev sel" "get_rq dev3 sel t = get_rq dev sel t"
    using t2 by (cases sel; simp add: dev3_def get_rq_def get_tagset_def)+
  have c1: "apple_nvme_common_complete_rq dev sel t = nvme_complete_rq dev2 sel t"
    by (simp add: apple_nvme_common_complete_rq_def dev2_def Let_def)
  have "req_end_io (get_rq (dev2\<lparr>calls := calls dev2 @ [NVME_COMPLETE_RQ sel t]\<rparr>) sel t)
      = Some APPLE_ABORT_ENDIO"
    using assms(2) t2 by (simp add: is_abort_rq_def get_rq_def)
  then have c2: "nvme_complete_rq dev2 sel t = blk_mq_free_request dev3 sel t"
    by (simp add: nvme_complete_rq_def Let_def apple_abort_endio_def dev3_def)
  note c = c1 [unfolded c2]
  show "abort_limit (apple_nvme_common_complete_rq dev sel t) = abort_limit dev + 1"
    by (simp add: c dev3_def t2)
  show "pending_aborts (apple_nvme_common_complete_rq dev sel t) + 1 = pending_aborts dev"
    using free_request_pending [of t dev3 sel] assms t3 t2 by (simp add: c dev3_def)
  show "\<not> is_abort_rq (get_rq (apple_nvme_common_complete_rq dev sel t) sel t)"
    unfolding c using assms(1) t3
    by (cases sel)
      (simp_all add: blk_mq_free_request_def Let_def get_rq_def get_tagset_def put_rq_tagsets
        is_abort_rq_def)
qed

text \<open>
  Claim C9. The abort budget of the device, which is what the counter holds plus one for
  each abort command in flight (a request that carries \<open>apple_abort_endio\<close>), is never
  changed by the timeout path. Whenever the timeout handler returns, on a request
  \<open>nvme_alloc_request\<close> hands out free, the budget is the one it found, whatever branch
  it took and whatever the forced drain completed; so a decrement is either undone before
  the handler returns or matched by an abort command in flight: every abort command the
  handler issued is issued with \<open>apple_abort_endio\<close> and is in flight under its tag
  when the handler returns, a tag of the admin tag set. The completion reaper keeps the
  budget, however long it runs. And finalizing an abort command in flight adds exactly
  one to the counter and takes the command out of flight, so that it cannot add again.
\<close>

theorem C9_abort_budget_balanced:
  "(alloc_fresh env dev \<and> apple_nvme_timeout fuel nc env dev req = Some (r, dev', req') \<longrightarrow>
       abort_budget dev' = abort_budget dev
     \<and> (\<forall>tag cmd cb. BLK_EXECUTE_RQ_NOWAIT tag cmd cb \<in> set (new_calls dev dev') \<longrightarrow>
            cb = APPLE_ABORT_ENDIO \<and> tag < length (rqs (get_tagset dev' ADMINQ))
          \<and> is_abort_rq (get_rq dev' ADMINQ tag)))
   \<and> abort_budget (snd (snd (nvme_process_cq_loop fuel nc sel (found, dev)))) = abort_budget dev
   \<and> (t < length (rqs (get_tagset dev sel)) \<and> is_abort_rq (get_rq dev sel t) \<longrightarrow>
       abort_limit (apple_nvme_common_complete_rq dev sel t) = abort_limit dev + 1
     \<and> pending_aborts (apple_nvme_common_complete_rq dev sel t) + 1 = pending_aborts dev
     \<and> \<not> is_abort_rq (get_rq (apple_nvme_common_complete_rq dev sel t) sel t))"
  using timeout_budget [of env dev fuel nc req r dev' req'] loop_budget [of fuel nc sel found dev]
    complete_abort_once [of t dev sel]
  by blast

theorem C9_abort_budget_witness:
  "abort_limit dev0 = 1 \<and> pending_aborts dev0 = 0
   \<and> map_option (\<lambda>(r, dev, req).
         (abort_limit dev, pending_aborts dev, abort_budget dev,
          abort_limit (apple_nvme_common_complete_rq dev ADMINQ 3),
          pending_aborts (apple_nvme_common_complete_rq dev ADMINQ 3)))
        (apple_nvme_timeout 8 nc0 env_alloc_ok dev0 rq0)
      = Some (0, 1, 1, 1, 0)"
proof -
  have z: "abort_limit dev0 = 1" "pending_aborts dev0 = 0"
    by (simp_all add: dev0_def pending_aborts_def is_abort_rq_def rq_idle_def)
  have fresh: "alloc_fresh env_alloc_ok dev0"
    by (simp add: alloc_fresh_def env_alloc_ok_def dev0_def is_abort_rq_def rq_idle_def)
  have "map_option (\<lambda>(r, dev, req).
          (abort_limit dev, pending_aborts dev, length (rqs (get_tagset dev ADMINQ)),
           is_abort_rq (get_rq dev ADMINQ 3)))
        (apple_nvme_timeout 8 nc0 env_alloc_ok dev0 rq0) = Some (0, 1, 32, True)"
    by code_simp
  then obtain r dev' req' where
    run: "apple_nvme_timeout 8 nc0 env_alloc_ok dev0 rq0 = Some (r, dev', req')"
    and l: "abort_limit dev' = 0" "pending_aborts dev' = 1"
      "length (rqs (get_tagset dev' ADMINQ)) = 32" "is_abort_rq (get_rq dev' ADMINQ 3)"
    by auto
  have b: "abort_budget dev' = abort_budget dev0"
    using C9_abort_budget_balanced [of env_alloc_ok dev0 8 nc0 rq0 r dev' req'] fresh run by blast
  have c: "abort_limit (apple_nvme_common_complete_rq dev' ADMINQ 3) = abort_limit dev' + 1"
    "pending_aborts (apple_nvme_common_complete_rq dev' ADMINQ 3) + 1 = pending_aborts dev'"
    using C9_abort_budget_balanced [where dev = dev' and t = 3 and sel = ADMINQ] l(3,4) by simp_all
  show ?thesis
    using z run l b c by (simp add: abort_budget_def)
qed

section \<open>Properties of the descriptor chain builder and of request submission\<close>

lemma page_offset_mod: "page_offset a = uint a mod 4096"
proof -
  have "a AND 4095 = a AND mask 12" by (simp add: mask_eq_exp_minus_1)
  then have "uint (a AND 4095) = uint a mod 2 ^ 12"
    by (simp add: and_mask_mod_2p uint_word_of_int)
  then show ?thesis by (simp add: page_offset_def NVME_CTRL_PAGE_SIZE_def)
qed

lemma page_offset_range: "0 \<le> page_offset a" "page_offset a < 4096"
  by (simp_all add: page_offset_mod)

lemma page_offset_add: "page_offset (a + word_of_int k) = (page_offset a + k) mod 4096"
proof -
  have "uint (a + word_of_int k) = (uint a + k mod 2 ^ 64) mod 2 ^ 64"
    by (simp add: uint_word_ariths uint_word_of_int)
  then have "uint (a + word_of_int k) mod 4096 = ((uint a + k mod 2 ^ 64) mod 2 ^ 64) mod 4096"
    by simp
  also have "\<dots> = (uint a + k mod 2 ^ 64) mod 4096"
    by (rule mod_mod_cancel) simp
  also have "\<dots> = (uint a mod 4096 + (k mod 2 ^ 64) mod 4096) mod 4096"
    by (simp add: mod_add_eq)
  also have "(k mod 2 ^ 64) mod 4096 = k mod 4096"
    by (rule mod_mod_cancel) simp
  finally show ?thesis by (simp add: page_offset_mod mod_add_eq mod_add_left_eq mod_add_right_eq)
qed

lemma page_offset_next: "page_offset a = 0 \<Longrightarrow> page_offset (a + of_nat NVME_CTRL_PAGE_SIZE) = 0"
  using page_offset_add [of a 4096] by (simp add: NVME_CTRL_PAGE_SIZE_def)

lemma page_offset_first: "page_offset (a + word_of_int (int NVME_CTRL_PAGE_SIZE - page_offset a)) = 0"
  using page_offset_add [of a "4096 - page_offset a"] by (simp add: NVME_CTRL_PAGE_SIZE_def)

lemma store_entry_fields:
  "ps_prp_list (prp_store_entry s) = ps_prp_list s"
  "ps_i (prp_store_entry s) = Suc (ps_i s)"
  "ps_pool (prp_store_entry s) = ps_pool s"
  "ps_iod (prp_store_entry s) = ps_iod s"
  "ps_sg (prp_store_entry s) = ps_sg s"
  "ps_dma_len (prp_store_entry s) = ps_dma_len s - of_nat NVME_CTRL_PAGE_SIZE"
  "ps_dma_addr (prp_store_entry s) = ps_dma_addr s + of_nat NVME_CTRL_PAGE_SIZE"
  "ps_length (prp_store_entry s) = ps_length s - of_nat NVME_CTRL_PAGE_SIZE"
  "pool_blocks (ps_dev (prp_store_entry s)) pool = pool_blocks (ps_dev s) pool"
  "prp_mem (ps_dev (prp_store_entry s)) =
     (prp_mem (ps_dev s))(ps_prp_list s := (prp_mem (ps_dev s) (ps_prp_list s))(ps_i s := ps_dma_addr s))"
  by (simp_all add: prp_store_entry_def Let_def pool_blocks_def split: pool_sel.splits)

lemma next_page_same: "ps_i s \<noteq> NVME_CTRL_PAGE_SIZE div 8 \<Longrightarrow> prp_next_page s = Some s"
  by (simp add: prp_next_page_def)

lemma next_page_full:
  assumes "ps_i s = NVME_CTRL_PAGE_SIZE div 8" and "prp_next_page s = Some s1"
  shows "\<exists>b bs. pool_blocks (ps_dev s) (ps_pool s) = b # bs
    \<and> ps_prp_list s1 = b \<and> ps_i s1 = 1 \<and> ps_pool s1 = ps_pool s
    \<and> pool_blocks (ps_dev s1) (ps_pool s) = bs
    \<and> ps_sg s1 = ps_sg s \<and> ps_dma_len s1 = ps_dma_len s
    \<and> ps_dma_addr s1 = ps_dma_addr s \<and> ps_length s1 = ps_length s
    \<and> iod_sg (ps_iod s1) = iod_sg (ps_iod s)
    \<and> iod_first_dma (ps_iod s1) = iod_first_dma (ps_iod s)
    \<and> iod_cmd (ps_iod s1) = iod_cmd (ps_iod s)
    \<and> prp_mem (ps_dev s1) =
      (let mem = prp_mem (ps_dev s);
           mem = mem(b := (mem b)(0 := mem (ps_prp_list s) (NVME_CTRL_PAGE_SIZE div 8 - 1)))
       in mem(ps_prp_list s := (mem (ps_prp_list s))(NVME_CTRL_PAGE_SIZE div 8 - 1 := b)))"
  using assms
  by (cases "ps_pool s")
    (auto simp: prp_next_page_def dma_pool_alloc_def pool_blocks_def Let_def split: list.splits)

lemma next_page_length: "prp_next_page s = Some s1 \<Longrightarrow> ps_length s1 = ps_length s"
  by (auto simp: prp_next_page_def Let_def split: if_splits option.splits)

lemma step_props:
  assumes "prp_next_page s = Some s1"
  shows "iod_sg (ps_iod (prp_store_entry s1)) = iod_sg (ps_iod s)"
    and "iod_first_dma (ps_iod (prp_store_entry s1)) = iod_first_dma (ps_iod s)"
    and "iod_cmd (ps_iod (prp_store_entry s1)) = iod_cmd (ps_iod s)"
    and "ps_pool (prp_store_entry s1) = ps_pool s"
    and "set (pool_blocks (ps_dev (prp_store_entry s1)) (ps_pool s)) \<subseteq> set (pool_blocks (ps_dev s) (ps_pool s))"
    and "ps_prp_list (prp_store_entry s1) = ps_prp_list s
         \<or> ps_prp_list (prp_store_entry s1) \<in> set (pool_blocks (ps_dev s) (ps_pool s))"
    and "q \<noteq> ps_prp_list s \<Longrightarrow> q \<notin> set (pool_blocks (ps_dev s) (ps_pool s)) \<Longrightarrow>
         prp_mem (ps_dev (prp_store_entry s1)) q = prp_mem (ps_dev s) q"
    and "ps_sg (prp_store_entry s1) = ps_sg s"
    and "ps_dma_len (prp_store_entry s1) = ps_dma_len s - of_nat NVME_CTRL_PAGE_SIZE"
    and "ps_dma_addr (prp_store_entry s1) = ps_dma_addr s + of_nat NVME_CTRL_PAGE_SIZE"
    and "ps_length (prp_store_entry s1) = ps_length s - of_nat NVME_CTRL_PAGE_SIZE"
proof -
  show "iod_sg (ps_iod (prp_store_entry s1)) = iod_sg (ps_iod s)"
    and "iod_first_dma (ps_iod (prp_store_entry s1)) = iod_first_dma (ps_iod s)"
    and "iod_cmd (ps_iod (prp_store_entry s1)) = iod_cmd (ps_iod s)"
    and "ps_pool (prp_store_entry s1) = ps_pool s"
    and "ps_sg (prp_store_entry s1) = ps_sg s"
    and "ps_dma_len (prp_store_entry s1) = ps_dma_len s - of_nat NVME_CTRL_PAGE_SIZE"
    and "ps_dma_addr (prp_store_entry s1) = ps_dma_addr s + of_nat NVME_CTRL_PAGE_SIZE"
    and "ps_length (prp_store_entry s1) = ps_length s - of_nat NVME_CTRL_PAGE_SIZE"
    using assms
    by (auto simp: store_entry_fields prp_next_page_def Let_def split: if_splits option.splits)
  show "set (pool_blocks (ps_dev (prp_store_entry s1)) (ps_pool s)) \<subseteq> set (pool_blocks (ps_dev s) (ps_pool s))"
  proof (cases "ps_i s = NVME_CTRL_PAGE_SIZE div 8")
    case True
    then show ?thesis using next_page_full [OF True assms] by (auto simp: store_entry_fields)
  next
    case False
    then show ?thesis using assms by (simp add: next_page_same store_entry_fields)
  qed
  show "ps_prp_list (prp_store_entry s1) = ps_prp_list s
         \<or> ps_prp_list (prp_store_entry s1) \<in> set (pool_blocks (ps_dev s) (ps_pool s))"
  proof (cases "ps_i s = NVME_CTRL_PAGE_SIZE div 8")
    case True
    then show ?thesis using next_page_full [OF True assms] by (auto simp: store_entry_fields)
  next
    case False
    then show ?thesis using assms by (simp add: next_page_same store_entry_fields)
  qed
  show "prp_mem (ps_dev (prp_store_entry s1)) q = prp_mem (ps_dev s) q"
    if "q \<noteq> ps_prp_list s" "q \<notin> set (pool_blocks (ps_dev s) (ps_pool s))"
  proof (cases "ps_i s = NVME_CTRL_PAGE_SIZE div 8")
    case True
    then show ?thesis using next_page_full [OF True assms] that
      by (auto simp: store_entry_fields Let_def)
  next
    case False
    then show ?thesis using assms that by (simp add: next_page_same store_entry_fields)
  qed
qed

lemma prp_fill_unfold:
  assumes "prp_next_page s = Some s1"
  shows "prp_fill s =
     (if sint (ps_length (prp_store_entry s1)) \<le> 0 then Some (BLK_STS_OK, prp_store_entry s1)
      else if sint (ps_dma_len (prp_store_entry s1)) > 0 then prp_fill (prp_store_entry s1)
      else if sint (ps_dma_len (prp_store_entry s1)) < 0 then Some (BLK_STS_IOERR, prp_store_entry s1)
      else (case tl (ps_sg (prp_store_entry s1)) of
              [] \<Rightarrow> None
            | sg # rest \<Rightarrow>
                prp_fill ((prp_store_entry s1)\<lparr>ps_sg := sg # rest, ps_dma_addr := dma_address sg,
                             ps_dma_len := dma_length sg\<rparr>)))"
  by (subst prp_fill.simps) (simp add: assms Let_def)

lemma prp_fill_ok_next:
  "prp_fill s = Some (BLK_STS_OK, s') \<Longrightarrow> \<exists>s1. prp_next_page s = Some s1"
  by (subst (asm) prp_fill.simps) (auto split: option.splits)

lemma prp_fill_frame:
  "prp_fill s = Some (BLK_STS_OK, s') \<Longrightarrow>
     iod_sg (ps_iod s') = iod_sg (ps_iod s)
     \<and> iod_first_dma (ps_iod s') = iod_first_dma (ps_iod s)
     \<and> iod_cmd (ps_iod s') = iod_cmd (ps_iod s)
     \<and> (\<forall>q. q \<noteq> ps_prp_list s \<longrightarrow> q \<notin> set (pool_blocks (ps_dev s) (ps_pool s)) \<longrightarrow>
            prp_mem (ps_dev s') q = prp_mem (ps_dev s) q)"
proof (induction s arbitrary: s' rule: prp_fill.induct)
  case (1 s)
  obtain s1 where n: "prp_next_page s = Some s1"
    using prp_fill_ok_next [OF "1.prems"] by blast
  define s2 where "s2 = prp_store_entry s1"
  note sp = step_props [OF n, folded s2_def]
  note u = prp_fill_unfold [OF n, folded s2_def]
  have compose: "iod_sg (ps_iod s') = iod_sg (ps_iod s)
     \<and> iod_first_dma (ps_iod s') = iod_first_dma (ps_iod s)
     \<and> iod_cmd (ps_iod s') = iod_cmd (ps_iod s)
     \<and> (\<forall>q. q \<noteq> ps_prp_list s \<longrightarrow> q \<notin> set (pool_blocks (ps_dev s) (ps_pool s)) \<longrightarrow>
            prp_mem (ps_dev s') q = prp_mem (ps_dev s) q)"
    if ih: "iod_sg (ps_iod s') = iod_sg (ps_iod s3)
     \<and> iod_first_dma (ps_iod s') = iod_first_dma (ps_iod s3)
     \<and> iod_cmd (ps_iod s') = iod_cmd (ps_iod s3)
     \<and> (\<forall>q. q \<noteq> ps_prp_list s3 \<longrightarrow> q \<notin> set (pool_blocks (ps_dev s3) (ps_pool s3)) \<longrightarrow>
            prp_mem (ps_dev s') q = prp_mem (ps_dev s3) q)"
      and e: "ps_iod s3 = ps_iod s2" "ps_dev s3 = ps_dev s2" "ps_prp_list s3 = ps_prp_list s2"
        "ps_pool s3 = ps_pool s2"
    for s3
  proof -
    have "prp_mem (ps_dev s') q = prp_mem (ps_dev s) q"
      if q: "q \<noteq> ps_prp_list s" "q \<notin> set (pool_blocks (ps_dev s) (ps_pool s))" for q
    proof -
      have "q \<noteq> ps_prp_list s3" using q sp(6) e by auto
      moreover have "q \<notin> set (pool_blocks (ps_dev s3) (ps_pool s3))"
        using q sp(4,5) e by auto
      ultimately have "prp_mem (ps_dev s') q = prp_mem (ps_dev s3) q" using ih by simp
      then show ?thesis using sp(7) [OF q] e by simp
    qed
    then show ?thesis using ih e sp(1,2,3) by simp
  qed
  show ?case
  proof (cases "sint (ps_length s2) \<le> 0")
    case True
    then have "s' = s2" using "1.prems" u by simp
    then show ?thesis using sp by simp
  next
    case len: False
    show ?thesis
    proof (cases "sint (ps_dma_len s2) > 0")
      case True
      then have r: "prp_fill s2 = Some (BLK_STS_OK, s')" using "1.prems" u len by simp
      show ?thesis
        by (rule compose [OF "1.IH"(1) [OF n s2_def len True r]]) simp_all
    next
      case False
      then have z: "\<not> sint (ps_dma_len s2) < 0" using "1.prems" u len by (auto split: if_splits)
      then obtain sg rest where t: "tl (ps_sg s2) = sg # rest"
        using "1.prems" u len False by (cases "tl (ps_sg s2)") auto
      have r: "prp_fill (s2\<lparr>ps_sg := sg # rest, ps_dma_addr := dma_address sg,
                             ps_dma_len := dma_length sg\<rparr>) = Some (BLK_STS_OK, s')"
        using "1.prems" u len False z t by simp
      show ?thesis
        by (rule compose [OF "1.IH"(2) [OF n s2_def len False z t r]]) simp_all
    qed
  qed
qed

lemma prp_walk_fits:
  "n \<le> NVME_CTRL_PAGE_SIZE div 8 \<Longrightarrow> prp_walk mem page n = map (mem page) [0..<n]"
  by (subst prp_walk.simps) simp

lemma prp_walk_chained:
  "NVME_CTRL_PAGE_SIZE div 8 < n \<Longrightarrow>
   prp_walk mem page n =
     map (mem page) [0..<511] @ prp_walk mem (mem page 511) (n - 511)"
  by (subst prp_walk.simps) (simp add: NVME_CTRL_PAGE_SIZE_def)

lemma prp_entries_unfold:
  "prp_entries dma_addr dma_len len sgs =
     dma_addr #
     (if sint (len - of_nat NVME_CTRL_PAGE_SIZE) \<le> 0 then []
      else if sint (dma_len - of_nat NVME_CTRL_PAGE_SIZE) > 0
      then prp_entries (dma_addr + of_nat NVME_CTRL_PAGE_SIZE) (dma_len - of_nat NVME_CTRL_PAGE_SIZE)
             (len - of_nat NVME_CTRL_PAGE_SIZE) sgs
      else if sint (dma_len - of_nat NVME_CTRL_PAGE_SIZE) < 0 then []
      else (case tl sgs of
              [] \<Rightarrow> []
            | sg # rest \<Rightarrow>
                prp_entries (dma_address sg) (dma_length sg)
                  (len - of_nat NVME_CTRL_PAGE_SIZE) (sg # rest)))"
  by (subst prp_entries.simps) simp

lemma prp_fill_walk:
  "prp_fill s = Some (BLK_STS_OK, s') \<Longrightarrow>
   ps_i s \<le> NVME_CTRL_PAGE_SIZE div 8 \<Longrightarrow>
   ps_prp_list s \<notin> set (pool_blocks (ps_dev s) (ps_pool s)) \<Longrightarrow>
   distinct (pool_blocks (ps_dev s) (ps_pool s)) \<Longrightarrow>
   prp_walk (prp_mem (ps_dev s')) (ps_prp_list s)
       (ps_i s + length (prp_entries (ps_dma_addr s) (ps_dma_len s) (ps_length s) (ps_sg s)))
     = map (prp_mem (ps_dev s) (ps_prp_list s)) [0..<ps_i s]
       @ prp_entries (ps_dma_addr s) (ps_dma_len s) (ps_length s) (ps_sg s)"
proof (induction s arbitrary: s' rule: prp_fill.induct)
  case (1 s)
  obtain s1 where n: "prp_next_page s = Some s1"
    using prp_fill_ok_next [OF "1.prems"(1)] by blast
  define s2 where "s2 = prp_store_entry s1"
  note sp = step_props [OF n, folded s2_def]
  note u = prp_fill_unfold [OF n, folded s2_def]
  define pg where "pg = ps_prp_list s"
  define mem where "mem = prp_mem (ps_dev s)"
  define T where "T = (if sint (ps_length s2) \<le> 0 then []
      else if sint (ps_dma_len s2) > 0
      then prp_entries (ps_dma_addr s2) (ps_dma_len s2) (ps_length s2) (ps_sg s2)
      else if sint (ps_dma_len s2) < 0 then []
      else (case tl (ps_sg s2) of
              [] \<Rightarrow> []
            | sg # rest \<Rightarrow>
                prp_entries (dma_address sg) (dma_length sg) (ps_length s2) (sg # rest)))"
  have E: "prp_entries (ps_dma_addr s) (ps_dma_len s) (ps_length s) (ps_sg s) = ps_dma_addr s # T"
    unfolding T_def sp by (rule prp_entries_unfold)
  \<comment> \<open>the state after one iteration, in the two cases of the page switch\<close>
  have inv2: "ps_i s2 \<le> NVME_CTRL_PAGE_SIZE div 8
      \<and> ps_prp_list s2 \<notin> set (pool_blocks (ps_dev s2) (ps_pool s2))
      \<and> distinct (pool_blocks (ps_dev s2) (ps_pool s2))"
  proof (cases "ps_i s = NVME_CTRL_PAGE_SIZE div 8")
    case True
    then show ?thesis
      using next_page_full [OF True n] "1.prems"(3,4) sp(4)
      by (auto simp: s2_def store_entry_fields NVME_CTRL_PAGE_SIZE_def)
  next
    case False
    then have "s1 = s" using n by (simp add: next_page_same)
    then show ?thesis using False "1.prems"(2,3,4) sp(4)
      by (simp add: s2_def store_entry_fields)
  qed
  \<comment> \<open>the chain from the page in use after the iteration\<close>
  have tail: "prp_walk (prp_mem (ps_dev s')) (ps_prp_list s2) (ps_i s2 + length T)
      = map (prp_mem (ps_dev s2) (ps_prp_list s2)) [0..<ps_i s2] @ T
    \<and> (\<forall>q. q \<noteq> ps_prp_list s2 \<longrightarrow> q \<notin> set (pool_blocks (ps_dev s2) (ps_pool s2)) \<longrightarrow>
            prp_mem (ps_dev s') q = prp_mem (ps_dev s2) q)"
  proof (cases "sint (ps_length s2) \<le> 0")
    case True
    then have "s' = s2" using "1.prems"(1) u by simp
    then show ?thesis using True inv2 by (simp add: T_def prp_walk_fits)
  next
    case len: False
    show ?thesis
    proof (cases "sint (ps_dma_len s2) > 0")
      case True
      then have r: "prp_fill s2 = Some (BLK_STS_OK, s')" using "1.prems"(1) u len by simp
      have "T = prp_entries (ps_dma_addr s2) (ps_dma_len s2) (ps_length s2) (ps_sg s2)"
        using len True by (simp add: T_def)
      then show ?thesis
        using "1.IH"(1) [OF n s2_def len True r] inv2 prp_fill_frame [OF r] by simp
    next
      case False
      then have z: "\<not> sint (ps_dma_len s2) < 0" using "1.prems"(1) u len by (auto split: if_splits)
      then obtain sg rest where t: "tl (ps_sg s2) = sg # rest"
        using "1.prems"(1) u len False by (cases "tl (ps_sg s2)") auto
      define s3 where "s3 = s2\<lparr>ps_sg := sg # rest, ps_dma_addr := dma_address sg,
                             ps_dma_len := dma_length sg\<rparr>"
      have r: "prp_fill s3 = Some (BLK_STS_OK, s')"
        using "1.prems"(1) u len False z t by (simp add: s3_def)
      have T3: "T = prp_entries (ps_dma_addr s3) (ps_dma_len s3) (ps_length s3) (ps_sg s3)"
        using len False z t by (simp add: T_def s3_def)
      have inv3: "ps_i s3 \<le> NVME_CTRL_PAGE_SIZE div 8"
        "ps_prp_list s3 \<notin> set (pool_blocks (ps_dev s3) (ps_pool s3))"
        "distinct (pool_blocks (ps_dev s3) (ps_pool s3))"
        using inv2 by (simp_all add: s3_def)
      have "prp_walk (prp_mem (ps_dev s')) (ps_prp_list s3) (ps_i s3 + length T)
          = map (prp_mem (ps_dev s3) (ps_prp_list s3)) [0..<ps_i s3] @ T"
        using "1.IH"(2) [OF n s2_def len False z t r [unfolded s3_def] inv3 [unfolded s3_def]]
        unfolding T3 s3_def .
      then show ?thesis using prp_fill_frame [OF r] by (simp add: s3_def)
    qed
  qed
  show ?case
  proof (cases "ps_i s = NVME_CTRL_PAGE_SIZE div 8")
    case False
    then have s1: "s1 = s" using n by (simp add: next_page_same)
    have f: "ps_prp_list s2 = pg" "ps_i s2 = Suc (ps_i s)"
      "prp_mem (ps_dev s2) pg = (mem pg)(ps_i s := ps_dma_addr s)"
      by (simp_all add: s2_def s1 store_entry_fields pg_def mem_def)
    have "prp_walk (prp_mem (ps_dev s')) pg (Suc (ps_i s) + length T)
        = map ((mem pg)(ps_i s := ps_dma_addr s)) [0..<Suc (ps_i s)] @ T"
      using tail by (simp add: f)
    then show ?thesis by (simp add: E pg_def mem_def)
  next
    case True
    obtain b bs where b: "pool_blocks (ps_dev s) (ps_pool s) = b # bs"
      "ps_prp_list s1 = b" "ps_i s1 = 1" "pool_blocks (ps_dev s1) (ps_pool s) = bs"
      "prp_mem (ps_dev s1) =
      (let mem = prp_mem (ps_dev s);
           mem = mem(b := (mem b)(0 := mem (ps_prp_list s) (NVME_CTRL_PAGE_SIZE div 8 - 1)))
       in mem(ps_prp_list s := (mem (ps_prp_list s))(NVME_CTRL_PAGE_SIZE div 8 - 1 := b)))"
      "ps_dma_addr s1 = ps_dma_addr s" "ps_pool s1 = ps_pool s"
      using next_page_full [OF True n] by blast
    have ne: "pg \<noteq> b" "pg \<notin> set bs" using "1.prems"(3) b(1) by (auto simp: pg_def)
    have f: "ps_prp_list s2 = b" "ps_i s2 = 2" "pool_blocks (ps_dev s2) (ps_pool s2) = bs"
      by (simp_all add: s2_def store_entry_fields b sp(4) [unfolded s2_def])
    have m2: "prp_mem (ps_dev s2) b 0 = mem pg 511" "prp_mem (ps_dev s2) b (Suc 0) = ps_dma_addr s"
      "prp_mem (ps_dev s2) pg = (mem pg)(511 := b)"
      using ne by (simp_all add: s2_def store_entry_fields b Let_def NVME_CTRL_PAGE_SIZE_def
          pg_def mem_def)
    have w1: "prp_walk (prp_mem (ps_dev s')) b (2 + length T)
        = map (prp_mem (ps_dev s2) b) [0..<2] @ T"
      using tail by (simp only: f)
    have w2: "map (prp_mem (ps_dev s2) b) [0..<2] = [mem pg 511, ps_dma_addr s]"
      by (simp add: numeral_2_eq_2 m2)
    have w: "prp_walk (prp_mem (ps_dev s')) b (2 + length T)
        = [mem pg 511, ps_dma_addr s] @ T"
      by (simp only: w1 w2)
    have fr: "prp_mem (ps_dev s') pg = (mem pg)(511 := b)"
      using tail ne by (simp add: f m2)
    have "prp_walk (prp_mem (ps_dev s')) pg (512 + length (ps_dma_addr s # T))
        = map (prp_mem (ps_dev s') pg) [0..<511]
          @ prp_walk (prp_mem (ps_dev s')) (prp_mem (ps_dev s') pg 511) (2 + length T)"
      by (subst prp_walk_chained) (simp_all add: NVME_CTRL_PAGE_SIZE_def)
    also have "\<dots> = map (mem pg) [0..<511] @ [mem pg 511, ps_dma_addr s] @ T"
    proof -
      have "map ((mem pg)(511 := b)) [0..<511] = map (mem pg) [0..<511]" by simp
      then show ?thesis by (simp only: fr w fun_upd_same)
    qed
    also have "\<dots> = map (mem pg) [0..<Suc 511] @ ps_dma_addr s # T"
      by (simp only: upt_Suc_append map_append) simp
    finally show ?thesis using True by (simp add: E pg_def mem_def NVME_CTRL_PAGE_SIZE_def)
  qed
qed

lemma mod_page_le: "(d::int) mod 4096 = 0 \<Longrightarrow> 0 < d \<Longrightarrow> 4096 \<le> d"
  by (rule zdvd_imp_le) (simp_all add: mod_eq_0_iff_dvd)

lemma div_page_one: "0 < (len::int) \<Longrightarrow> len \<le> 4096 \<Longrightarrow> (len + 4095) div 4096 = 1"
  by (rule int_div_pos_eq [where r = "len - 1"]) simp_all

lemma div_page_step: "(len + 4095) div 4096 = 1 + (len - 4096 + 4095) div (4096::int)"
proof -
  have "len + 4095 = (len - 4096 + 4095) + 1 * 4096" by simp
  then show ?thesis
    by (metis div_add_self2 add.commute mult_1 zero_neq_numeral div_mult_self1
        add.right_neutral add.assoc)
qed

lemma mod_page_sub: "(d::int) mod 4096 = 0 \<Longrightarrow> (d - 4096) mod 4096 = 0"
  by (metis mod_0 mod_diff_left_eq mod_self diff_self)

lemma sgl_wf_tl: "sgl_wf (sg # rest) \<Longrightarrow> sgl_wf rest"
  by (cases rest) simp_all

lemma sgl_wf_hd: "sgl_wf (sg # rest) \<Longrightarrow> 0 < sint (dma_length sg)"
  by (cases rest) simp_all

lemma sg_total_pos: "sgl_wf sgl \<Longrightarrow> sgl \<noteq> [] \<Longrightarrow> 0 < sg_total sgl"
proof (induction sgl)
  case Nil
  then show ?case by simp
next
  case (Cons sg rest)
  have "0 \<le> sg_total rest"
    using Cons.IH sgl_wf_tl [OF Cons.prems(1)] by (cases rest) (simp_all add: sg_total_def)
  then show ?case using sgl_wf_hd [OF Cons.prems(1)] by (simp add: sg_total_def)
qed

lemma sg_total_Cons: "sg_total (sg # rest) = sint (dma_length sg) + sg_total rest"
  by (simp add: sg_total_def)

lemma sg_pieces_Cons:
  "sg_pieces (sg # rest) = frag_pieces (dma_address sg) (sint (dma_length sg)) @ sg_pieces rest"
  by (simp add: sg_pieces_def)

lemma frag_pieces_empty: "len \<le> 0 \<Longrightarrow> frag_pieces a len = []"
  by (subst frag_pieces.simps) simp

lemma frag_pieces_aligned:
  "page_offset a = 0 \<Longrightarrow> 0 < len \<Longrightarrow>
   frag_pieces a len =
     (a, min len 4096) # frag_pieces (a + word_of_int (min len 4096)) (len - min len 4096)"
  by (subst frag_pieces.simps) (simp add: NVME_CTRL_PAGE_SIZE_def)

lemma prp_cover_aligned:
  "page_offset p = 0 \<Longrightarrow> 0 < len \<Longrightarrow>
   prp_cover (p # ps) len = (p, min len 4096) # prp_cover ps (len - min len 4096)"
  by (simp add: NVME_CTRL_PAGE_SIZE_def)

lemma sint_sub_page:
  "0 < sint (x :: s32) \<Longrightarrow> sint (x - of_nat NVME_CTRL_PAGE_SIZE) = sint x - 4096"
proof -
  assume a: "0 < sint x"
  have r: "sint x < 2 ^ 31" using sint_range_size [of x] by (simp add: word_size)
  have "sint (x - 4096) = signed_take_bit 31 (sint x - 4096)"
    by (simp add: sint_word_diff)
  also have "\<dots> = sint x - 4096"
    using a r by (simp add: signed_take_bit_int_eq_self_iff)
  finally show ?thesis by (simp add: NVME_CTRL_PAGE_SIZE_def)
qed

lemma prp_entries_cover:
  "page_offset dma_addr = 0 \<Longrightarrow> 0 < sint dma_len \<Longrightarrow>
   sint len = sint dma_len + sg_total (tl sgs) \<Longrightarrow>
   (tl sgs \<noteq> [] \<longrightarrow> sint dma_len mod 4096 = 0 \<and> page_offset (dma_address (hd (tl sgs))) = 0) \<Longrightarrow>
   sgl_wf (tl sgs) \<Longrightarrow>
   prp_cover (prp_entries dma_addr dma_len len sgs) (sint len)
     = frag_pieces dma_addr (sint dma_len) @ sg_pieces (tl sgs)
   \<and> int (length (prp_entries dma_addr dma_len len sgs)) = (sint len + 4095) div 4096
   \<and> length (prp_cover (prp_entries dma_addr dma_len len sgs) (sint len))
     = length (prp_entries dma_addr dma_len len sgs)"
proof (induction dma_addr dma_len len sgs rule: prp_entries.induct)
  case (1 dma_addr dma_len len sgs)
  note al = "1.prems"(1) and pos = "1.prems"(2) and tot = "1.prems"(3)
    and nxt = "1.prems"(4) and wf = "1.prems"(5)
  define len' where "len' = len - of_nat NVME_CTRL_PAGE_SIZE"
  define dl' where "dl' = dma_len - of_nat NVME_CTRL_PAGE_SIZE"
  have lenpos: "0 < sint len"
    using pos tot sg_total_pos [OF wf] by (cases "tl sgs = []") (simp_all add: sg_total_def)
  have sl: "sint len' = sint len - 4096" unfolding len'_def using lenpos by (rule sint_sub_page)
  have sd: "sint dl' = sint dma_len - 4096" unfolding dl'_def using pos by (rule sint_sub_page)
  note unf = prp_entries_unfold [of dma_addr dma_len len sgs, folded len'_def dl'_def]
  show ?case
  proof (cases "sint len - 4096 \<le> 0")
    case True
    have e: "tl sgs = []"
    proof (rule ccontr)
      assume ne: "tl sgs \<noteq> []"
      then have "sint dma_len mod 4096 = 0" using nxt by simp
      then have "4096 \<le> sint dma_len" using pos by (rule mod_page_le)
      moreover have "0 < sg_total (tl sgs)" using sg_total_pos [OF wf ne] .
      ultimately show False using True tot by simp
    qed
    then have dl: "sint dma_len = sint len" using tot by (simp add: sg_total_def)
    have E: "prp_entries dma_addr dma_len len sgs = [dma_addr]"
      using True by (subst unf) (simp add: sl)
    have m: "min (sint len) 4096 = sint len" using True by simp
    have "frag_pieces dma_addr (sint len) = [(dma_addr, sint len)]"
      using frag_pieces_aligned [OF al lenpos] by (simp add: m frag_pieces_empty)
    moreover have "(sint len + 4095) div 4096 = 1"
      using True lenpos by (intro div_page_one) simp_all
    ultimately show ?thesis
      unfolding E using al lenpos
      by (simp add: e dl m sg_pieces_def NVME_CTRL_PAGE_SIZE_def)
  next
    case big: False
    then have m: "min (sint len) 4096 = 4096" by simp
    have d: "(sint len + 4095) div 4096 = 1 + (sint len' + 4095) div 4096"
      using div_page_step [of "sint len"] by (simp add: sl)
    have c1: "\<not> sint len' \<le> 0" using big by (simp add: sl)
    have cov1: "prp_cover (dma_addr # es) (sint len) = (dma_addr, 4096) # prp_cover es (sint len')"
      for es
      using al lenpos by (simp add: m sl NVME_CTRL_PAGE_SIZE_def)
    show ?thesis
    proof (cases "sint dma_len - 4096 > 0")
      case True
      have c2: "0 < sint dl'" using True by (simp add: sd)
      have E: "prp_entries dma_addr dma_len len sgs =
          dma_addr # prp_entries (dma_addr + of_nat NVME_CTRL_PAGE_SIZE) dl' len' sgs"
        using c1 c2 by (subst unf) simp
      have ih: "prp_cover (prp_entries (dma_addr + of_nat NVME_CTRL_PAGE_SIZE) dl' len' sgs) (sint len')
          = frag_pieces (dma_addr + of_nat NVME_CTRL_PAGE_SIZE) (sint dl') @ sg_pieces (tl sgs)
        \<and> int (length (prp_entries (dma_addr + of_nat NVME_CTRL_PAGE_SIZE) dl' len' sgs))
          = (sint len' + 4095) div 4096
        \<and> length (prp_cover (prp_entries (dma_addr + of_nat NVME_CTRL_PAGE_SIZE) dl' len' sgs)
             (sint len'))
          = length (prp_entries (dma_addr + of_nat NVME_CTRL_PAGE_SIZE) dl' len' sgs)"
        unfolding len'_def dl'_def
      proof (rule "1.IH"(1) [OF c1 [unfolded len'_def] c2 [unfolded dl'_def]])
        show "page_offset (dma_addr + of_nat NVME_CTRL_PAGE_SIZE) = 0"
          using al by (rule page_offset_next)
        show "0 < sint (dma_len - of_nat NVME_CTRL_PAGE_SIZE)" using c2 by (simp add: dl'_def)
        show "sint (len - of_nat NVME_CTRL_PAGE_SIZE)
            = sint (dma_len - of_nat NVME_CTRL_PAGE_SIZE) + sg_total (tl sgs)"
          using tot sl sd by (simp add: len'_def dl'_def)
        show "tl sgs \<noteq> [] \<longrightarrow> sint (dma_len - of_nat NVME_CTRL_PAGE_SIZE) mod 4096 = 0
            \<and> page_offset (dma_address (hd (tl sgs))) = 0"
          using nxt mod_page_sub [of "sint dma_len"] sd by (simp add: dl'_def)
        show "sgl_wf (tl sgs)" using wf .
      qed
      have md: "min (sint dma_len) 4096 = 4096" using True by simp
      have fp: "frag_pieces dma_addr (sint dma_len) =
          (dma_addr, 4096) # frag_pieces (dma_addr + of_nat NVME_CTRL_PAGE_SIZE) (sint dl')"
        using frag_pieces_aligned [OF al pos] by (simp add: md sd NVME_CTRL_PAGE_SIZE_def)
      show ?thesis
        unfolding E fp cov1
        apply (intro conjI)
        subgoal using ih [THEN conjunct1] by simp
        subgoal using ih [THEN conjunct2, THEN conjunct1] d by simp
        subgoal using ih [THEN conjunct2, THEN conjunct2] by simp
        done
    next
      case False
      have ne: "tl sgs \<noteq> []"
      proof
        assume "tl sgs = []"
        then show False using tot big False by (simp add: sg_total_def)
      qed
      then have "sint dma_len mod 4096 = 0" using nxt by simp
      then have "4096 \<le> sint dma_len" using pos by (rule mod_page_le)
      then have dl: "sint dma_len = 4096" using False by simp
      obtain sg rest where t: "tl sgs = sg # rest" using ne by (cases "tl sgs") auto
      have c2: "\<not> 0 < sint dl'" "\<not> sint dl' < 0" using dl by (simp_all add: sd)
      have E: "prp_entries dma_addr dma_len len sgs =
          dma_addr # prp_entries (dma_address sg) (dma_length sg) len' (sg # rest)"
        using c1 c2 t by (subst unf) simp
      have ih: "prp_cover (prp_entries (dma_address sg) (dma_length sg) len' (sg # rest)) (sint len')
          = frag_pieces (dma_address sg) (sint (dma_length sg)) @ sg_pieces (tl (sg # rest))
        \<and> int (length (prp_entries (dma_address sg) (dma_length sg) len' (sg # rest)))
          = (sint len' + 4095) div 4096
        \<and> length (prp_cover (prp_entries (dma_address sg) (dma_length sg) len' (sg # rest))
             (sint len'))
          = length (prp_entries (dma_address sg) (dma_length sg) len' (sg # rest))"
        unfolding len'_def
      proof (rule "1.IH"(2) [OF c1 [unfolded len'_def] c2 [unfolded dl'_def] t])
        show "page_offset (dma_address sg) = 0" using nxt t by simp
        show "0 < sint (dma_length sg)" using wf t sgl_wf_hd by simp
        show "sint (len - of_nat NVME_CTRL_PAGE_SIZE)
            = sint (dma_length sg) + sg_total (tl (sg # rest))"
          using tot dl t sl by (simp add: sg_total_Cons len'_def)
        show "tl (sg # rest) \<noteq> [] \<longrightarrow> sint (dma_length sg) mod 4096 = 0
            \<and> page_offset (dma_address (hd (tl (sg # rest)))) = 0"
        proof (cases rest)
          case Nil
          then show ?thesis by simp
        next
          case (Cons sg' rest')
          then show ?thesis
            using wf t \<open>page_offset (dma_address sg) = 0\<close>
            by (simp add: NVME_CTRL_PAGE_SIZE_def)
        qed
        show "sgl_wf (tl (sg # rest))" using wf t sgl_wf_tl by simp
      qed
      have fp: "frag_pieces dma_addr (sint dma_len) = [(dma_addr, 4096)]"
        using frag_pieces_aligned [OF al pos] by (simp add: dl frag_pieces_empty)
      show ?thesis
        unfolding E fp cov1
        apply (intro conjI)
        subgoal using ih [THEN conjunct1] by (simp add: t sg_pieces_Cons)
        subgoal using ih [THEN conjunct2, THEN conjunct1] d by simp
        subgoal using ih [THEN conjunct2, THEN conjunct2] by simp
        done
    qed
  qed
qed

lemma frag_pieces_sum: "0 \<le> len \<Longrightarrow> sum_list (map snd (frag_pieces a len)) = len"
proof (induction a len rule: frag_pieces.induct)
  case (1 a len)
  show ?case
  proof (cases "len \<le> 0")
    case True
    then show ?thesis using "1.prems" by (simp add: frag_pieces_empty)
  next
    case False
    have r: "page_offset a < 4096" by (rule page_offset_range)
    have "0 \<le> len - min len (int NVME_CTRL_PAGE_SIZE - page_offset a)" by simp
    from "1.IH" [OF False this] show ?thesis
      using False by (subst frag_pieces.simps) simp
  qed
qed

lemma sg_pieces_sum: "sgl_wf sgl \<Longrightarrow> sum_list (map snd (sg_pieces sgl)) = sg_total sgl"
proof (induction sgl)
  case Nil
  then show ?case by (simp add: sg_pieces_def sg_total_def)
next
  case (Cons sg rest)
  have "0 \<le> sint (dma_length sg)" using sgl_wf_hd [OF Cons.prems] by simp
  then show ?case
    using Cons.IH [OF sgl_wf_tl [OF Cons.prems]]
    by (simp add: sg_pieces_Cons sg_total_Cons frag_pieces_sum)
qed

lemma dma_pool_alloc_Some:
  assumes "dma_pool_alloc dev pool = Some (b, dev1)" and "distinct (pool_blocks dev pool)"
  shows "b \<notin> set (pool_blocks dev1 pool)" and "distinct (pool_blocks dev1 pool)"
    and "prp_mem dev1 = prp_mem dev"
  using assms
  by (cases pool; auto simp: dma_pool_alloc_def pool_blocks_def split: list.splits)+

lemma offset_word: "sint (ucast ((a :: u64) AND 4095) :: s32) = page_offset a"
proof -
  have r: "0 \<le> page_offset a" "page_offset a < 4096" by (rule page_offset_range)+
  have "uint (ucast (a AND 4095) :: s32) = take_bit 32 (page_offset a)"
    by (simp add: unsigned_ucast_eq page_offset_def NVME_CTRL_PAGE_SIZE_def)
  also have "\<dots> = page_offset a" using r by (simp add: take_bit_int_eq_self)
  finally have u: "uint (ucast (a AND 4095) :: s32) = page_offset a" .
  have "sint (ucast (a AND 4095) :: s32) = signed_take_bit 31 (page_offset a)"
    using u by (simp add: sint_uint)
  also have "\<dots> = page_offset a" using r by (simp add: signed_take_bit_int_eq_self_iff)
  finally show ?thesis .
qed

lemma first_page_word:
  "sint (of_nat NVME_CTRL_PAGE_SIZE - ucast ((a :: u64) AND (of_nat NVME_CTRL_PAGE_SIZE - 1)) :: s32)
     = 4096 - page_offset a"
proof -
  have r: "0 \<le> page_offset a" "page_offset a < 4096" by (rule page_offset_range)+
  have "sint (4096 - ucast (a AND 4095) :: s32) = signed_take_bit 31 (4096 - page_offset a)"
    by (simp add: sint_word_diff offset_word)
  also have "\<dots> = 4096 - page_offset a" using r by (simp add: signed_take_bit_int_eq_self_iff)
  finally show ?thesis by (simp add: NVME_CTRL_PAGE_SIZE_def)
qed

lemma sub_first_page:
  assumes "- (2 ^ 31) + 4096 \<le> sint (x :: s32)"
  shows "sint (x - (of_nat NVME_CTRL_PAGE_SIZE - ucast ((a :: u64) AND (of_nat NVME_CTRL_PAGE_SIZE - 1))))
     = sint x - (4096 - page_offset a)"
proof -
  have r: "0 \<le> page_offset a" "page_offset a < 4096" by (rule page_offset_range)+
  have x: "sint x < 2 ^ 31" using sint_range_size [of x] by (simp add: word_size)
  have "sint (x - (of_nat NVME_CTRL_PAGE_SIZE - ucast (a AND (of_nat NVME_CTRL_PAGE_SIZE - 1))))
      = signed_take_bit (LENGTH(32) - 1) (sint x - (4096 - page_offset a))"
    by (simp only: sint_word_diff [of x] first_page_word)
  also have "\<dots> = sint x - (4096 - page_offset a)"
    using r x assms by (simp add: signed_take_bit_int_eq_self_iff)
  finally show ?thesis .
qed

lemma add_first_page:
  "dma_addr + scast (of_nat NVME_CTRL_PAGE_SIZE
                       - ucast ((a :: u64) AND (of_nat NVME_CTRL_PAGE_SIZE - 1)) :: s32)
     = dma_addr + (word_of_int (int NVME_CTRL_PAGE_SIZE - page_offset a) :: u64)"
  by (simp only: scast_eq first_page_word) (simp add: NVME_CTRL_PAGE_SIZE_def)

lemma round_up_pages:
  assumes "0 < sint (x :: s32)" and "sint x \<le> 2 ^ 31 - 4096"
  shows "sint (x + of_nat NVME_CTRL_PAGE_SIZE - 1) sdiv int NVME_CTRL_PAGE_SIZE
     = (sint x + 4095) div 4096"
proof -
  have e: "x + of_nat NVME_CTRL_PAGE_SIZE - 1 = x + 4095" by (simp add: NVME_CTRL_PAGE_SIZE_def)
  have "sint (x + 4095) = signed_take_bit (LENGTH(32) - 1) (sint x + sint (4095 :: s32))"
    by (rule sint_word_add)
  also have "\<dots> = signed_take_bit 31 (sint x + 4095)" by simp
  also have "\<dots> = sint x + 4095"
    using assms by (simp add: signed_take_bit_int_eq_self_iff)
  finally have s: "sint (x + of_nat NVME_CTRL_PAGE_SIZE - 1) = sint x + 4095"
    by (simp only: e)
  show ?thesis
    unfolding s using assms(1) by (simp add: NVME_CTRL_PAGE_SIZE_def signed_divide_int_def sgn_if)
qed

lemma sint_zero_iff: "(sint (w :: s32) = 0) = (w = 0)"
proof
  assume "sint w = 0"
  then have "word_of_int (sint w) = (0 :: s32)" by simp
  then show "w = 0" by simp
next
  assume "w = 0"
  then show "sint w = 0" by simp
qed

lemma prp_fill_npages:
  "prp_fill s = Some (BLK_STS_OK, s') \<Longrightarrow>
     iod_npages (ps_iod s) \<le> iod_npages (ps_iod s')
     \<and> (ps_i s + length (prp_entries (ps_dma_addr s) (ps_dma_len s) (ps_length s) (ps_sg s))
            \<le> NVME_CTRL_PAGE_SIZE div 8 \<longrightarrow>
          iod_npages (ps_iod s') = iod_npages (ps_iod s))"
proof (induction s arbitrary: s' rule: prp_fill.induct)
  case (1 s)
  obtain s1 where n: "prp_next_page s = Some s1"
    using prp_fill_ok_next [OF "1.prems"] by blast
  define s2 where "s2 = prp_store_entry s1"
  note sp = step_props [OF n, folded s2_def]
  note u = prp_fill_unfold [OF n, folded s2_def]
  define T where "T = (if sint (ps_length s2) \<le> 0 then []
      else if sint (ps_dma_len s2) > 0
      then prp_entries (ps_dma_addr s2) (ps_dma_len s2) (ps_length s2) (ps_sg s2)
      else if sint (ps_dma_len s2) < 0 then []
      else (case tl (ps_sg s2) of
              [] \<Rightarrow> []
            | sg # rest \<Rightarrow>
                prp_entries (dma_address sg) (dma_length sg) (ps_length s2) (sg # rest)))"
  have E: "prp_entries (ps_dma_addr s) (ps_dma_len s) (ps_length s) (ps_sg s) = ps_dma_addr s # T"
    unfolding T_def sp by (rule prp_entries_unfold)
  have mono: "iod_npages (ps_iod s) \<le> iod_npages (ps_iod s2)"
    using n by (auto simp: s2_def store_entry_fields prp_next_page_def Let_def
        split: if_splits option.splits)
  have same: "iod_npages (ps_iod s2) = iod_npages (ps_iod s) \<and> ps_i s2 = Suc (ps_i s)"
    if "ps_i s \<noteq> NVME_CTRL_PAGE_SIZE div 8"
    using that n by (simp add: next_page_same s2_def store_entry_fields)
  have tail: "iod_npages (ps_iod s2) \<le> iod_npages (ps_iod s')
     \<and> (ps_i s2 + length T \<le> NVME_CTRL_PAGE_SIZE div 8 \<longrightarrow>
          iod_npages (ps_iod s') = iod_npages (ps_iod s2))"
  proof (cases "sint (ps_length s2) \<le> 0")
    case True
    then have "s' = s2" using "1.prems" u by simp
    then show ?thesis by simp
  next
    case len: False
    show ?thesis
    proof (cases "sint (ps_dma_len s2) > 0")
      case True
      then have r: "prp_fill s2 = Some (BLK_STS_OK, s')" using "1.prems" u len by simp
      have "T = prp_entries (ps_dma_addr s2) (ps_dma_len s2) (ps_length s2) (ps_sg s2)"
        using len True by (simp add: T_def)
      then show ?thesis using "1.IH"(1) [OF n s2_def len True r] by simp
    next
      case False
      then have z: "\<not> sint (ps_dma_len s2) < 0" using "1.prems" u len by (auto split: if_splits)
      then obtain sg rest where t: "tl (ps_sg s2) = sg # rest"
        using "1.prems" u len False by (cases "tl (ps_sg s2)") auto
      have r: "prp_fill (s2\<lparr>ps_sg := sg # rest, ps_dma_addr := dma_address sg,
                             ps_dma_len := dma_length sg\<rparr>) = Some (BLK_STS_OK, s')"
        using "1.prems" u len False z t by simp
      have "T = prp_entries (dma_address sg) (dma_length sg) (ps_length s2) (sg # rest)"
        using len False z t by (simp add: T_def)
      then show ?thesis using "1.IH"(2) [OF n s2_def len False z t r] by simp
    qed
  qed
  show ?case
  proof (intro conjI impI)
    show "iod_npages (ps_iod s) \<le> iod_npages (ps_iod s')" using mono tail by simp
    assume "ps_i s + length (prp_entries (ps_dma_addr s) (ps_dma_len s) (ps_length s) (ps_sg s))
        \<le> NVME_CTRL_PAGE_SIZE div 8"
    then have b: "Suc (ps_i s + length T) \<le> NVME_CTRL_PAGE_SIZE div 8" by (simp add: E)
    then have "ps_i s \<noteq> NVME_CTRL_PAGE_SIZE div 8" by simp
    then show "iod_npages (ps_iod s') = iod_npages (ps_iod s)"
      using same tail b by simp
  qed
qed

lemma setup_prps_chain_unfold:
  assumes sg: "iod_sg iod = sg # rest"
    and c1: "\<not> sint (payload_bytes req - (of_nat NVME_CTRL_PAGE_SIZE
                - ucast (dma_address sg AND (of_nat NVME_CTRL_PAGE_SIZE - 1)))) \<le> 0"
    and c2: "\<not> sint (payload_bytes req - (of_nat NVME_CTRL_PAGE_SIZE
                - ucast (dma_address sg AND (of_nat NVME_CTRL_PAGE_SIZE - 1))))
              \<le> int NVME_CTRL_PAGE_SIZE"
  shows "apple_nvme_setup_prps dev req iod =
     (case (if dma_length sg - (of_nat NVME_CTRL_PAGE_SIZE
                - ucast (dma_address sg AND (of_nat NVME_CTRL_PAGE_SIZE - 1))) \<noteq> 0
            then Some (sg # rest,
                   dma_address sg + scast (of_nat NVME_CTRL_PAGE_SIZE
                     - ucast (dma_address sg AND (of_nat NVME_CTRL_PAGE_SIZE - 1)) :: s32),
                   dma_length sg - (of_nat NVME_CTRL_PAGE_SIZE
                     - ucast (dma_address sg AND (of_nat NVME_CTRL_PAGE_SIZE - 1))))
            else (case rest of [] \<Rightarrow> None
                  | sg' # rest' \<Rightarrow> Some (sg' # rest', dma_address sg', dma_length sg'))) of
        None \<Rightarrow> None
      | Some (sgs, a, d) \<Rightarrow>
         (let nprps = sint (payload_bytes req - (of_nat NVME_CTRL_PAGE_SIZE
                        - ucast (dma_address sg AND (of_nat NVME_CTRL_PAGE_SIZE - 1)))
                        + of_nat NVME_CTRL_PAGE_SIZE - 1) sdiv int NVME_CTRL_PAGE_SIZE;
              pool = (if nprps \<le> 256 div 8 then PRP_SMALL_POOL else PRP_PAGE_POOL);
              iod0 = (if nprps \<le> 256 div 8 then iod\<lparr>iod_npages := 0\<rparr> else iod\<lparr>iod_npages := 1\<rparr>)
          in case dma_pool_alloc dev pool of
               None \<Rightarrow> Some (BLK_STS_RESOURCE, dev, iod0\<lparr>iod_first_dma := a, iod_npages := - 1\<rparr>)
             | Some (b, dev1) \<Rightarrow>
                (case prp_fill \<lparr>ps_dev = dev1,
                         ps_iod = iod0\<lparr>iod_list := (iod_list iod0)(0 := b), iod_first_dma := b\<rparr>,
                         ps_pool = pool, ps_prp_list = b, ps_i = 0, ps_dma_len = d, ps_dma_addr = a,
                         ps_length = payload_bytes req - (of_nat NVME_CTRL_PAGE_SIZE
                            - ucast (dma_address sg AND (of_nat NVME_CTRL_PAGE_SIZE - 1))),
                         ps_sg = sgs\<rparr> of
                   None \<Rightarrow> None
                 | Some (st, s) \<Rightarrow>
                     if st = BLK_STS_OK then Some (setup_prps_done (ps_dev s) (ps_iod s))
                     else if st = BLK_STS_IOERR
                     then Some (st, (ps_dev s)\<lparr>warnings := warnings (ps_dev s)
                                       @ [''Invalid SGL for payload'']\<rparr>, ps_iod s)
                     else Some (st, ps_dev s, ps_iod s))))"
  unfolding apple_nvme_setup_prps_def sg Let_def
  by (simp only: list.case if_not_P [OF c1] if_not_P [OF c2] cong: option.case_cong)

text \<open>On a fragment list with the page-boundary geometry the loop neither runs off the
  list nor rejects it: it ends with \<open>BLK_STS_OK\<close>, or with \<open>BLK_STS_RESOURCE\<close> when
  a pool is empty.\<close>

lemma prp_fill_wf:
  "page_offset (ps_dma_addr s) = 0 \<Longrightarrow> 0 < sint (ps_dma_len s) \<Longrightarrow>
   sint (ps_length s) = sint (ps_dma_len s) + sg_total (tl (ps_sg s)) \<Longrightarrow>
   (tl (ps_sg s) \<noteq> [] \<longrightarrow> sint (ps_dma_len s) mod 4096 = 0
      \<and> page_offset (dma_address (hd (tl (ps_sg s)))) = 0) \<Longrightarrow>
   sgl_wf (tl (ps_sg s)) \<Longrightarrow>
   \<exists>s'. prp_fill s = Some (BLK_STS_OK, s') \<or> prp_fill s = Some (BLK_STS_RESOURCE, s')"
proof (induction s rule: prp_fill.induct)
  case (1 s)
  note al = "1.prems"(1) and pos = "1.prems"(2) and tot = "1.prems"(3)
    and nxt = "1.prems"(4) and wf = "1.prems"(5)
  show ?case
  proof (cases "prp_next_page s")
    case None
    have "prp_fill s
        = Some (BLK_STS_RESOURCE, s\<lparr>ps_dev := apple_nvme_free_prps (ps_dev s) (ps_iod s)\<rparr>)"
      by (subst prp_fill.simps) (simp add: None)
    then show ?thesis by blast
  next
    case (Some s1)
    define s2 where "s2 = prp_store_entry s1"
    note sp = step_props [OF Some, folded s2_def]
    note u = prp_fill_unfold [OF Some, folded s2_def]
    have lenpos: "0 < sint (ps_length s)"
      using pos tot sg_total_pos [OF wf] by (cases "tl (ps_sg s) = []") (simp_all add: sg_total_def)
    have sl: "sint (ps_length s2) = sint (ps_length s) - 4096"
      unfolding sp using lenpos by (rule sint_sub_page)
    have sd: "sint (ps_dma_len s2) = sint (ps_dma_len s) - 4096"
      unfolding sp using pos by (rule sint_sub_page)
    have sg2: "ps_sg s2 = ps_sg s" by (rule sp(8))
    show ?thesis
    proof (cases "sint (ps_length s2) \<le> 0")
      case True
      then show ?thesis by (simp add: u)
    next
      case len: False
      show ?thesis
      proof (cases "sint (ps_dma_len s2) > 0")
        case True
        have "\<exists>s'. prp_fill s2 = Some (BLK_STS_OK, s') \<or> prp_fill s2 = Some (BLK_STS_RESOURCE, s')"
        proof (rule "1.IH"(1) [OF Some s2_def len True])
          show "page_offset (ps_dma_addr s2) = 0"
            unfolding sp using al by (rule page_offset_next)
          show "0 < sint (ps_dma_len s2)" by (rule True)
          show "sint (ps_length s2) = sint (ps_dma_len s2) + sg_total (tl (ps_sg s2))"
            using tot by (simp add: sl sd sg2)
          show "tl (ps_sg s2) \<noteq> [] \<longrightarrow> sint (ps_dma_len s2) mod 4096 = 0
              \<and> page_offset (dma_address (hd (tl (ps_sg s2)))) = 0"
            using nxt mod_page_sub [of "sint (ps_dma_len s)"] by (simp add: sd sg2)
          show "sgl_wf (tl (ps_sg s2))" using wf by (simp add: sg2)
        qed
        then show ?thesis using len True by (simp add: u)
      next
        case False
        have ne: "tl (ps_sg s) \<noteq> []"
        proof
          assume "tl (ps_sg s) = []"
          then show False using tot len False by (simp add: sl sd sg_total_def)
        qed
        then have "sint (ps_dma_len s) mod 4096 = 0" using nxt by simp
        then have "4096 \<le> sint (ps_dma_len s)" using pos by (rule mod_page_le)
        then have dl: "sint (ps_dma_len s) = 4096" using False by (simp add: sd)
        then have z: "\<not> sint (ps_dma_len s2) < 0" by (simp add: sd)
        obtain sg rest where t: "tl (ps_sg s2) = sg # rest"
          using ne by (cases "tl (ps_sg s)") (auto simp: sg2)
        define s3 where "s3 = s2\<lparr>ps_sg := sg # rest, ps_dma_addr := dma_address sg,
                             ps_dma_len := dma_length sg\<rparr>"
        have t': "tl (ps_sg s) = sg # rest" using t by (simp add: sg2)
        have "\<exists>s'. prp_fill s3 = Some (BLK_STS_OK, s') \<or> prp_fill s3 = Some (BLK_STS_RESOURCE, s')"
          unfolding s3_def
        proof (rule "1.IH"(2) [OF Some s2_def len False z t])
          show "page_offset (ps_dma_addr (s2\<lparr>ps_sg := sg # rest, ps_dma_addr := dma_address sg,
                             ps_dma_len := dma_length sg\<rparr>)) = 0"
            using nxt t' by simp
          show "0 < sint (ps_dma_len (s2\<lparr>ps_sg := sg # rest, ps_dma_addr := dma_address sg,
                             ps_dma_len := dma_length sg\<rparr>))"
            using wf t' sgl_wf_hd by simp
          show "sint (ps_length (s2\<lparr>ps_sg := sg # rest, ps_dma_addr := dma_address sg,
                             ps_dma_len := dma_length sg\<rparr>))
              = sint (ps_dma_len (s2\<lparr>ps_sg := sg # rest, ps_dma_addr := dma_address sg,
                             ps_dma_len := dma_length sg\<rparr>))
                + sg_total (tl (ps_sg (s2\<lparr>ps_sg := sg # rest, ps_dma_addr := dma_address sg,
                             ps_dma_len := dma_length sg\<rparr>)))"
            using tot dl t' by (simp add: sl sg_total_Cons)
          show "tl (ps_sg (s2\<lparr>ps_sg := sg # rest, ps_dma_addr := dma_address sg,
                             ps_dma_len := dma_length sg\<rparr>)) \<noteq> [] \<longrightarrow>
              sint (ps_dma_len (s2\<lparr>ps_sg := sg # rest, ps_dma_addr := dma_address sg,
                             ps_dma_len := dma_length sg\<rparr>)) mod 4096 = 0
              \<and> page_offset (dma_address (hd (tl (ps_sg (s2\<lparr>ps_sg := sg # rest,
                   ps_dma_addr := dma_address sg, ps_dma_len := dma_length sg\<rparr>))))) = 0"
          proof (cases rest)
            case Nil
            then show ?thesis by simp
          next
            case (Cons sg' rest')
            have "page_offset (dma_address sg) = 0" using nxt t' by simp
            then show ?thesis using wf t' Cons by (simp add: NVME_CTRL_PAGE_SIZE_def)
          qed
          show "sgl_wf (tl (ps_sg (s2\<lparr>ps_sg := sg # rest, ps_dma_addr := dma_address sg,
                             ps_dma_len := dma_length sg\<rparr>)))"
            using wf t' sgl_wf_tl by simp
        qed
        then show ?thesis using len False z t by (simp add: u s3_def)
      qed
    qed
  qed
qed

text \<open>
  The start of the builder on a fragment list with the page-boundary geometry and a
  payload that needs a pointer list: the first pointer covers the first fragment up to
  the end of its page, and the loop starts on a page boundary, in the first fragment or,
  when that ends with its first page, in the second.
\<close>

lemma setup_prps_start:
  assumes sg: "iod_sg iod = sg # rest"
    and wf: "sgl_wf (sg # rest)"
    and total: "sint (payload_bytes req) = sg_total (sg # rest)"
    and chain: "2 * int NVME_CTRL_PAGE_SIZE - page_offset (dma_address sg) < sint (payload_bytes req)"
    and bound: "sint (payload_bytes req) \<le> 2 ^ 31 - 4096"
  obtains sgs a d len1 where
    "sint len1 = sint (payload_bytes req) - (4096 - page_offset (dma_address sg))"
    and "page_offset a = 0" and "0 < sint d" and "sint len1 = sint d + sg_total (tl sgs)"
    and "tl sgs \<noteq> [] \<longrightarrow> sint d mod 4096 = 0 \<and> page_offset (dma_address (hd (tl sgs))) = 0"
    and "sgl_wf (tl sgs)"
    and "sg_pieces (sg # rest)
        = (dma_address sg, 4096 - page_offset (dma_address sg))
          # (frag_pieces a (sint d) @ sg_pieces (tl sgs))"
    and "apple_nvme_setup_prps dev req iod =
      (case dma_pool_alloc dev (if (sint len1 + 4095) div 4096 \<le> 256 div 8
                                then PRP_SMALL_POOL else PRP_PAGE_POOL) of
         None \<Rightarrow> Some (BLK_STS_RESOURCE, dev,
                   (if (sint len1 + 4095) div 4096 \<le> 256 div 8 then iod\<lparr>iod_npages := 0\<rparr>
                    else iod\<lparr>iod_npages := 1\<rparr>)\<lparr>iod_first_dma := a, iod_npages := - 1\<rparr>)
       | Some (b, dev1) \<Rightarrow>
          (case prp_fill \<lparr>ps_dev = dev1,
                   ps_iod = (if (sint len1 + 4095) div 4096 \<le> 256 div 8 then iod\<lparr>iod_npages := 0\<rparr>
                             else iod\<lparr>iod_npages := 1\<rparr>)
                      \<lparr>iod_list := (iod_list (if (sint len1 + 4095) div 4096 \<le> 256 div 8
                                               then iod\<lparr>iod_npages := 0\<rparr>
                                               else iod\<lparr>iod_npages := 1\<rparr>))(0 := b),
                       iod_first_dma := b\<rparr>,
                   ps_pool = (if (sint len1 + 4095) div 4096 \<le> 256 div 8
                              then PRP_SMALL_POOL else PRP_PAGE_POOL),
                   ps_prp_list = b, ps_i = 0, ps_dma_len = d, ps_dma_addr = a,
                   ps_length = len1, ps_sg = sgs\<rparr> of
             None \<Rightarrow> None
           | Some (st, s) \<Rightarrow>
               if st = BLK_STS_OK then Some (setup_prps_done (ps_dev s) (ps_iod s))
               else if st = BLK_STS_IOERR
               then Some (st, (ps_dev s)\<lparr>warnings := warnings (ps_dev s)
                                 @ [''Invalid SGL for payload'']\<rparr>, ps_iod s)
               else Some (st, ps_dev s, ps_iod s)))"
proof -
  define off where "off = page_offset (dma_address sg)"
  define L where "L = sint (payload_bytes req)"
  define L1 where "L1 = L - (4096 - off)"
  define len1 where "len1 = payload_bytes req - (of_nat NVME_CTRL_PAGE_SIZE
      - ucast (dma_address sg AND (of_nat NVME_CTRL_PAGE_SIZE - 1)))"
  define d1 where "d1 = dma_length sg - (of_nat NVME_CTRL_PAGE_SIZE
      - ucast (dma_address sg AND (of_nat NVME_CTRL_PAGE_SIZE - 1)))"
  define a1 where "a1 = dma_address sg + scast (of_nat NVME_CTRL_PAGE_SIZE
      - ucast (dma_address sg AND (of_nat NVME_CTRL_PAGE_SIZE - 1)) :: s32)"
  have offr: "0 \<le> off" "off < 4096" by (simp_all add: off_def page_offset_range)
  have big: "4096 < L1" using chain by (simp add: L1_def L_def off_def NVME_CTRL_PAGE_SIZE_def)
  have len0: "0 < sint (dma_length sg)" using wf by (rule sgl_wf_hd)
  have wfr: "sgl_wf rest" using wf by (rule sgl_wf_tl)
  have tot: "L = sint (dma_length sg) + sg_total rest"
    using total by (simp add: L_def sg_total_Cons)
  \<comment> \<open>the 32-bit locals hold the values of the unbounded arithmetic\<close>
  have sl: "sint len1 = L1"
    unfolding len1_def L1_def L_def off_def
    using big offr by (intro sub_first_page) (simp add: L1_def L_def)
  have sd: "sint d1 = sint (dma_length sg) - (4096 - off)"
    unfolding d1_def off_def using len0 by (intro sub_first_page) simp
  have a1eq: "a1 = dma_address sg + word_of_int (int NVME_CTRL_PAGE_SIZE - page_offset (dma_address sg))"
    unfolding a1_def by (rule add_first_page)
  have a1al: "page_offset a1 = 0"
    unfolding a1eq by (rule page_offset_first)
  have d1z: "(d1 \<noteq> 0) = (sint d1 \<noteq> 0)" by (simp add: sint_zero_iff)
  have np: "sint (len1 + of_nat NVME_CTRL_PAGE_SIZE - 1) sdiv int NVME_CTRL_PAGE_SIZE
      = (L1 + 4095) div 4096"
    using round_up_pages [of len1] big bound offr by (simp add: sl L1_def L_def)
  \<comment> \<open>the first fragment reaches the end of its first page\<close>
  have d1nn: "0 \<le> sint d1" and d1mod: "rest \<noteq> [] \<longrightarrow> sint d1 mod 4096 = 0"
  proof -
    show "rest \<noteq> [] \<longrightarrow> sint d1 mod 4096 = 0"
    proof
      assume "rest \<noteq> []"
      then obtain sg' rest' where "rest = sg' # rest'" by (cases rest) auto
      then have "(off + sint (dma_length sg)) mod 4096 = 0"
        using wf by (simp add: off_def NVME_CTRL_PAGE_SIZE_def)
      then show "sint d1 mod 4096 = 0"
        using mod_page_sub [of "off + sint (dma_length sg)"] by (simp add: sd algebra_simps)
    qed
    show "0 \<le> sint d1"
    proof (cases "rest = []")
      case True
      then show ?thesis using tot big by (simp add: sd L1_def sg_total_def)
    next
      case False
      then obtain sg' rest' where "rest = sg' # rest'" by (cases rest) auto
      then have "(off + sint (dma_length sg)) mod 4096 = 0"
        using wf by (simp add: off_def NVME_CTRL_PAGE_SIZE_def)
      moreover have "0 < off + sint (dma_length sg)" using offr len0 by simp
      ultimately have "4096 \<le> off + sint (dma_length sg)" by (rule mod_page_le)
      then show ?thesis by (simp add: sd)
    qed
  qed
  \<comment> \<open>where the loop starts\<close>
  obtain sgs a d where start:
    "(if d1 \<noteq> 0 then Some (sg # rest, a1, d1)
      else (case rest of [] \<Rightarrow> None
            | sg' # rest' \<Rightarrow> Some (sg' # rest', dma_address sg', dma_length sg')))
     = Some (sgs, a, d)"
    and al: "page_offset a = 0" and dpos: "0 < sint d" and l1: "sint len1 = sint d + sg_total (tl sgs)"
    and nx: "tl sgs \<noteq> [] \<longrightarrow> sint d mod 4096 = 0 \<and> page_offset (dma_address (hd (tl sgs))) = 0"
    and wft: "sgl_wf (tl sgs)"
    and pieces: "sg_pieces (sg # rest)
        = (dma_address sg, 4096 - off) # (frag_pieces a (sint d) @ sg_pieces (tl sgs))"
  proof (cases "d1 \<noteq> 0")
    case True
    then have nz: "sint d1 \<noteq> 0" using d1z by simp
    have fp: "frag_pieces (dma_address sg) (sint (dma_length sg))
        = (dma_address sg, 4096 - off) # frag_pieces a1 (sint d1)"
      using nz d1nn len0
      by (subst frag_pieces.simps) (simp add: off_def sd a1eq NVME_CTRL_PAGE_SIZE_def min_def)
    show ?thesis
    proof (rule that [of "sg # rest" a1 d1])
      show "page_offset a1 = 0" by (rule a1al)
      show "0 < sint d1" using nz d1nn by simp
      show "sint len1 = sint d1 + sg_total (tl (sg # rest))" using tot by (simp add: sl L1_def sd)
      show "tl (sg # rest) \<noteq> [] \<longrightarrow> sint d1 mod 4096 = 0
          \<and> page_offset (dma_address (hd (tl (sg # rest)))) = 0"
        using d1mod wf by (cases rest) simp_all
      show "sgl_wf (tl (sg # rest))" using wfr by simp
      show "sg_pieces (sg # rest) = (dma_address sg, 4096 - off)
          # (frag_pieces a1 (sint d1) @ sg_pieces (tl (sg # rest)))"
        by (simp add: sg_pieces_Cons fp)
    qed (simp add: True)
  next
    case False
    then have z: "sint d1 = 0" "d1 = 0" by simp_all
    have "rest \<noteq> []"
    proof
      assume "rest = []"
      then show False using tot big z(1) by (simp add: sd L1_def sg_total_def)
    qed
    then obtain sg' rest' where r: "rest = sg' # rest'" by (cases rest) auto
    have fp: "frag_pieces (dma_address sg) (sint (dma_length sg)) = [(dma_address sg, 4096 - off)]"
      using z(1) len0
      by (subst frag_pieces.simps)
        (simp add: off_def sd NVME_CTRL_PAGE_SIZE_def min_def frag_pieces_empty)
    show ?thesis
    proof (rule that [of "sg' # rest'" "dma_address sg'" "dma_length sg'"])
      show "page_offset (dma_address sg') = 0" using wf r by simp
      show "0 < sint (dma_length sg')" using wfr r sgl_wf_hd by simp
      show "sint len1 = sint (dma_length sg') + sg_total (tl (sg' # rest'))"
        using tot z(1) r by (simp add: sl L1_def sd sg_total_Cons)
      show "tl (sg' # rest') \<noteq> [] \<longrightarrow> sint (dma_length sg') mod 4096 = 0
          \<and> page_offset (dma_address (hd (tl (sg' # rest')))) = 0"
        using wf r by (cases rest') (auto simp: NVME_CTRL_PAGE_SIZE_def)
      show "sgl_wf (tl (sg' # rest'))" using wfr r sgl_wf_tl by simp
      show "sg_pieces (sg # rest) = (dma_address sg, 4096 - off)
          # (frag_pieces (dma_address sg') (sint (dma_length sg')) @ sg_pieces (tl (sg' # rest')))"
        by (simp add: sg_pieces_Cons fp r)
    qed (simp add: z r)
  qed
  \<comment> \<open>the run of the builder\<close>
  have c: "\<not> sint len1 \<le> 0" "\<not> sint len1 \<le> int NVME_CTRL_PAGE_SIZE"
    using big by (simp_all add: sl NVME_CTRL_PAGE_SIZE_def)
  define small where "small = ((L1 + 4095) div 4096 \<le> 256 div 8)"
  define pool where "pool = (if small then PRP_SMALL_POOL else PRP_PAGE_POOL)"
  define iod0 where "iod0 = (if small then iod\<lparr>iod_npages := 0\<rparr> else iod\<lparr>iod_npages := 1\<rparr>)"
  have run: "apple_nvme_setup_prps dev req iod =
      (case dma_pool_alloc dev pool of
         None \<Rightarrow> Some (BLK_STS_RESOURCE, dev, iod0\<lparr>iod_first_dma := a, iod_npages := - 1\<rparr>)
       | Some (b, dev1) \<Rightarrow>
          (case prp_fill \<lparr>ps_dev = dev1,
                   ps_iod = iod0\<lparr>iod_list := (iod_list iod0)(0 := b), iod_first_dma := b\<rparr>,
                   ps_pool = pool, ps_prp_list = b, ps_i = 0, ps_dma_len = d, ps_dma_addr = a,
                   ps_length = len1, ps_sg = sgs\<rparr> of
             None \<Rightarrow> None
           | Some (st, s) \<Rightarrow>
               if st = BLK_STS_OK then Some (setup_prps_done (ps_dev s) (ps_iod s))
               else if st = BLK_STS_IOERR
               then Some (st, (ps_dev s)\<lparr>warnings := warnings (ps_dev s)
                                 @ [''Invalid SGL for payload'']\<rparr>, ps_iod s)
               else Some (st, ps_dev s, ps_iod s)))"
    unfolding pool_def iod0_def small_def
    by (simp only: setup_prps_chain_unfold [OF sg c [unfolded len1_def],
          folded len1_def d1_def a1_def] start np option.case prod.case Let_def)
  show thesis
    by (rule that [OF sl [unfolded L1_def L_def off_def] al dpos l1 nx wft pieces [unfolded off_def]
          run [unfolded pool_def iod0_def small_def sl [symmetric]]])
qed

text \<open>So the builder does not reject such a list, and does not run off it: it returns
  \<open>BLK_STS_OK\<close>, or \<open>BLK_STS_RESOURCE\<close> when a pool is empty.\<close>

lemma setup_prps_wf_accepts:
  assumes sg: "iod_sg iod = sg # rest"
    and wf: "sgl_wf (sg # rest)"
    and total: "sint (payload_bytes req) = sg_total (sg # rest)"
    and chain: "2 * int NVME_CTRL_PAGE_SIZE - page_offset (dma_address sg) < sint (payload_bytes req)"
    and bound: "sint (payload_bytes req) \<le> 2 ^ 31 - 4096"
  shows "\<exists>st dev' iod'. apple_nvme_setup_prps dev req iod = Some (st, dev', iod')
           \<and> (st = BLK_STS_OK \<or> st = BLK_STS_RESOURCE)"
proof -
  obtain sgs a d len1 where
    sl0: "sint len1 = sint (payload_bytes req) - (4096 - page_offset (dma_address sg))"
    and al: "page_offset a = 0" and dpos: "0 < sint d" and l1: "sint len1 = sint d + sg_total (tl sgs)"
    and nx: "tl sgs \<noteq> [] \<longrightarrow> sint d mod 4096 = 0 \<and> page_offset (dma_address (hd (tl sgs))) = 0"
    and wft: "sgl_wf (tl sgs)"
    and pieces0: "sg_pieces (sg # rest)
        = (dma_address sg, 4096 - page_offset (dma_address sg))
          # (frag_pieces a (sint d) @ sg_pieces (tl sgs))"
    and run0: "apple_nvme_setup_prps dev req iod =
      (case dma_pool_alloc dev (if (sint len1 + 4095) div 4096 \<le> 256 div 8
                                then PRP_SMALL_POOL else PRP_PAGE_POOL) of
         None \<Rightarrow> Some (BLK_STS_RESOURCE, dev,
                   (if (sint len1 + 4095) div 4096 \<le> 256 div 8 then iod\<lparr>iod_npages := 0\<rparr>
                    else iod\<lparr>iod_npages := 1\<rparr>)\<lparr>iod_first_dma := a, iod_npages := - 1\<rparr>)
       | Some (b, dev1) \<Rightarrow>
          (case prp_fill \<lparr>ps_dev = dev1,
                   ps_iod = (if (sint len1 + 4095) div 4096 \<le> 256 div 8 then iod\<lparr>iod_npages := 0\<rparr>
                             else iod\<lparr>iod_npages := 1\<rparr>)
                      \<lparr>iod_list := (iod_list (if (sint len1 + 4095) div 4096 \<le> 256 div 8
                                               then iod\<lparr>iod_npages := 0\<rparr>
                                               else iod\<lparr>iod_npages := 1\<rparr>))(0 := b),
                       iod_first_dma := b\<rparr>,
                   ps_pool = (if (sint len1 + 4095) div 4096 \<le> 256 div 8
                              then PRP_SMALL_POOL else PRP_PAGE_POOL),
                   ps_prp_list = b, ps_i = 0, ps_dma_len = d, ps_dma_addr = a,
                   ps_length = len1, ps_sg = sgs\<rparr> of
             None \<Rightarrow> None
           | Some (st, s) \<Rightarrow>
               if st = BLK_STS_OK then Some (setup_prps_done (ps_dev s) (ps_iod s))
               else if st = BLK_STS_IOERR
               then Some (st, (ps_dev s)\<lparr>warnings := warnings (ps_dev s)
                                 @ [''Invalid SGL for payload'']\<rparr>, ps_iod s)
               else Some (st, ps_dev s, ps_iod s)))"
    by (rule setup_prps_start [OF sg wf total chain bound, where dev = dev])
  define small where "small = ((sint len1 + 4095) div 4096 \<le> 256 div 8)"
  define pool where "pool = (if small then PRP_SMALL_POOL else PRP_PAGE_POOL)"
  define iod0 where "iod0 = (if small then iod\<lparr>iod_npages := 0\<rparr> else iod\<lparr>iod_npages := 1\<rparr>)"
  have run: "apple_nvme_setup_prps dev req iod =
      (case dma_pool_alloc dev pool of
         None \<Rightarrow> Some (BLK_STS_RESOURCE, dev, iod0\<lparr>iod_first_dma := a, iod_npages := - 1\<rparr>)
       | Some (b, dev1) \<Rightarrow>
          (case prp_fill \<lparr>ps_dev = dev1,
                   ps_iod = iod0\<lparr>iod_list := (iod_list iod0)(0 := b), iod_first_dma := b\<rparr>,
                   ps_pool = pool, ps_prp_list = b, ps_i = 0, ps_dma_len = d, ps_dma_addr = a,
                   ps_length = len1, ps_sg = sgs\<rparr> of
             None \<Rightarrow> None
           | Some (st, s) \<Rightarrow>
               if st = BLK_STS_OK then Some (setup_prps_done (ps_dev s) (ps_iod s))
               else if st = BLK_STS_IOERR
               then Some (st, (ps_dev s)\<lparr>warnings := warnings (ps_dev s)
                                 @ [''Invalid SGL for payload'']\<rparr>, ps_iod s)
               else Some (st, ps_dev s, ps_iod s)))"
    unfolding pool_def iod0_def small_def by (rule run0)
  show ?thesis
  proof (cases "dma_pool_alloc dev pool")
    case None
    then show ?thesis by (simp add: run)
  next
    case (Some p)
    obtain b dev1 where p: "p = (b, dev1)" by (cases p)
    define s0 where "s0 = \<lparr>ps_dev = dev1,
                   ps_iod = iod0\<lparr>iod_list := (iod_list iod0)(0 := b), iod_first_dma := b\<rparr>,
                   ps_pool = pool, ps_prp_list = b, ps_i = 0, ps_dma_len = d, ps_dma_addr = a,
                   ps_length = len1, ps_sg = sgs\<rparr>"
    have "\<exists>s'. prp_fill s0 = Some (BLK_STS_OK, s') \<or> prp_fill s0 = Some (BLK_STS_RESOURCE, s')"
      using al dpos l1 nx wft by (intro prp_fill_wf) (simp_all add: s0_def)
    then obtain s' where
      "prp_fill s0 = Some (BLK_STS_OK, s') \<or> prp_fill s0 = Some (BLK_STS_RESOURCE, s')"
      by blast
    then show ?thesis
      using Some p by (auto simp: run s0_def [symmetric] setup_prps_done_def)
  qed
qed

text \<open>
  Claim C3, as the code has it. Take a mapped fragment list of the kind the builder is
  made for (fragments non-empty, all but the last ending and all but the first starting
  on a controller page boundary), whose lengths add up to the payload, with a payload
  that needs a pointer list (more than two controller pages from the first address) and
  stays within the reach of the builder's 32-bit arithmetic (at most 2^31 - 4096 bytes,
  so that rounding the pointer count up does not wrap), and pools that never hand out a
  block twice. Whenever \<open>apple_nvme_setup_prps\<close> returns \<open>BLK_STS_OK\<close>, \<open>prp1\<close> is
  the address of the first fragment, and \<open>prp1\<close> followed by the \<open>nprps\<close> pointers
  found by walking the chain from \<open>prp2\<close> describes exactly the pieces of the input
  fragments, cut at the page boundaries, in their order: the same addresses and the same
  byte counts. No pointer is in excess (there are as many pieces as pointers) and nothing
  is cut off (the pieces add up to the payload). A list of at most 32 pointers lies in
  one block of the small pool (\<open>npages\<close> is 0), a longer one in linked pages of the
  page pool.
\<close>

theorem C3_prp_chain_round_trip:
  assumes sg: "iod_sg iod = sg # rest"
    and wf: "sgl_wf (sg # rest)"
    and total: "sint (payload_bytes req) = sg_total (sg # rest)"
    and chain: "2 * int NVME_CTRL_PAGE_SIZE - page_offset (dma_address sg) < sint (payload_bytes req)"
    and bound: "sint (payload_bytes req) \<le> 2 ^ 31 - 4096"
    and pools: "distinct (prp_small_pool dev)" "distinct (prp_page_pool dev)"
    and ok: "apple_nvme_setup_prps dev req iod = Some (BLK_STS_OK, dev', iod')"
  shows "prp1 (iod_cmd iod') = dma_address sg
     \<and> prp_cover (prp1 (iod_cmd iod')
                  # prp_walk (prp_mem dev') (prp2 (iod_cmd iod'))
                      (prp_nprps (sint (payload_bytes req)) (dma_address sg)))
           (sint (payload_bytes req))
         = sg_pieces (sg # rest)
     \<and> length (sg_pieces (sg # rest))
         = Suc (prp_nprps (sint (payload_bytes req)) (dma_address sg))
     \<and> sum_list (map snd (sg_pieces (sg # rest))) = sint (payload_bytes req)
     \<and> (iod_npages iod' = 0) = (prp_nprps (sint (payload_bytes req)) (dma_address sg) \<le> 32)"
proof -
  define off where "off = page_offset (dma_address sg)"
  define L where "L = sint (payload_bytes req)"
  define L1 where "L1 = L - (4096 - off)"
  have offr: "0 \<le> off" "off < 4096" by (simp_all add: off_def page_offset_range)
  have big: "4096 < L1" using chain by (simp add: L1_def L_def off_def NVME_CTRL_PAGE_SIZE_def)
  obtain sgs a d len1 where
    sl0: "sint len1 = sint (payload_bytes req) - (4096 - page_offset (dma_address sg))"
    and al: "page_offset a = 0" and dpos: "0 < sint d" and l1: "sint len1 = sint d + sg_total (tl sgs)"
    and nx: "tl sgs \<noteq> [] \<longrightarrow> sint d mod 4096 = 0 \<and> page_offset (dma_address (hd (tl sgs))) = 0"
    and wft: "sgl_wf (tl sgs)"
    and pieces0: "sg_pieces (sg # rest)
        = (dma_address sg, 4096 - page_offset (dma_address sg))
          # (frag_pieces a (sint d) @ sg_pieces (tl sgs))"
    and run0: "apple_nvme_setup_prps dev req iod =
      (case dma_pool_alloc dev (if (sint len1 + 4095) div 4096 \<le> 256 div 8
                                then PRP_SMALL_POOL else PRP_PAGE_POOL) of
         None \<Rightarrow> Some (BLK_STS_RESOURCE, dev,
                   (if (sint len1 + 4095) div 4096 \<le> 256 div 8 then iod\<lparr>iod_npages := 0\<rparr>
                    else iod\<lparr>iod_npages := 1\<rparr>)\<lparr>iod_first_dma := a, iod_npages := - 1\<rparr>)
       | Some (b, dev1) \<Rightarrow>
          (case prp_fill \<lparr>ps_dev = dev1,
                   ps_iod = (if (sint len1 + 4095) div 4096 \<le> 256 div 8 then iod\<lparr>iod_npages := 0\<rparr>
                             else iod\<lparr>iod_npages := 1\<rparr>)
                      \<lparr>iod_list := (iod_list (if (sint len1 + 4095) div 4096 \<le> 256 div 8
                                               then iod\<lparr>iod_npages := 0\<rparr>
                                               else iod\<lparr>iod_npages := 1\<rparr>))(0 := b),
                       iod_first_dma := b\<rparr>,
                   ps_pool = (if (sint len1 + 4095) div 4096 \<le> 256 div 8
                              then PRP_SMALL_POOL else PRP_PAGE_POOL),
                   ps_prp_list = b, ps_i = 0, ps_dma_len = d, ps_dma_addr = a,
                   ps_length = len1, ps_sg = sgs\<rparr> of
             None \<Rightarrow> None
           | Some (st, s) \<Rightarrow>
               if st = BLK_STS_OK then Some (setup_prps_done (ps_dev s) (ps_iod s))
               else if st = BLK_STS_IOERR
               then Some (st, (ps_dev s)\<lparr>warnings := warnings (ps_dev s)
                                 @ [''Invalid SGL for payload'']\<rparr>, ps_iod s)
               else Some (st, ps_dev s, ps_iod s)))"
    by (rule setup_prps_start [OF sg wf total chain bound, where dev = dev])
  have sl: "sint len1 = L1" using sl0 by (simp add: L1_def L_def off_def)
  note pieces = pieces0 [folded off_def]
  define small where "small = ((L1 + 4095) div 4096 \<le> 256 div 8)"
  define pool where "pool = (if small then PRP_SMALL_POOL else PRP_PAGE_POOL)"
  define iod0 where "iod0 = (if small then iod\<lparr>iod_npages := 0\<rparr> else iod\<lparr>iod_npages := 1\<rparr>)"
  have run: "apple_nvme_setup_prps dev req iod =
      (case dma_pool_alloc dev pool of
         None \<Rightarrow> Some (BLK_STS_RESOURCE, dev, iod0\<lparr>iod_first_dma := a, iod_npages := - 1\<rparr>)
       | Some (b, dev1) \<Rightarrow>
          (case prp_fill \<lparr>ps_dev = dev1,
                   ps_iod = iod0\<lparr>iod_list := (iod_list iod0)(0 := b), iod_first_dma := b\<rparr>,
                   ps_pool = pool, ps_prp_list = b, ps_i = 0, ps_dma_len = d, ps_dma_addr = a,
                   ps_length = len1, ps_sg = sgs\<rparr> of
             None \<Rightarrow> None
           | Some (st, s) \<Rightarrow>
               if st = BLK_STS_OK then Some (setup_prps_done (ps_dev s) (ps_iod s))
               else if st = BLK_STS_IOERR
               then Some (st, (ps_dev s)\<lparr>warnings := warnings (ps_dev s)
                                 @ [''Invalid SGL for payload'']\<rparr>, ps_iod s)
               else Some (st, ps_dev s, ps_iod s)))"
    unfolding pool_def iod0_def small_def sl [symmetric] by (rule run0)
  obtain b dev1 where alloc: "dma_pool_alloc dev pool = Some (b, dev1)"
    using ok run by (cases "dma_pool_alloc dev pool") auto
  define s0 where "s0 = \<lparr>ps_dev = dev1,
                   ps_iod = iod0\<lparr>iod_list := (iod_list iod0)(0 := b), iod_first_dma := b\<rparr>,
                   ps_pool = pool, ps_prp_list = b, ps_i = 0, ps_dma_len = d, ps_dma_addr = a,
                   ps_length = len1, ps_sg = sgs\<rparr>"
  obtain s where fill: "prp_fill s0 = Some (BLK_STS_OK, s)"
    and res: "dev' = ps_dev s" "iod' = snd (snd (setup_prps_done (ps_dev s) (ps_iod s)))"
    using ok run alloc
    by (cases "prp_fill s0") (auto simp: s0_def setup_prps_done_def split: if_splits)
  have dist: "distinct (pool_blocks dev pool)"
    using pools by (simp add: pool_blocks_def split: pool_sel.splits)
  note pa = dma_pool_alloc_Some [OF alloc dist]
  have fr: "iod_sg (ps_iod s) = sg # rest" "iod_first_dma (ps_iod s) = b"
    using prp_fill_frame [OF fill] sg by (simp_all add: s0_def iod0_def)
  define E where "E = prp_entries a d len1 sgs"
  have walk: "prp_walk (prp_mem dev') b (length E) = E"
    using prp_fill_walk [OF fill] pa(1,2) by (simp add: s0_def E_def res(1))
  note cov = prp_entries_cover [OF al dpos l1 nx wft, folded E_def, unfolded sl]
  have n: "prp_nprps (sint (payload_bytes req)) (dma_address sg) = length E"
    using cov [THEN conjunct2, THEN conjunct1]
    by (simp add: prp_nprps_def L1_def L_def off_def NVME_CTRL_PAGE_SIZE_def)
  have p: "prp1 (iod_cmd iod') = dma_address sg" "prp2 (iod_cmd iod') = b"
    by (simp_all add: res(2) setup_prps_done_def fr)
  have Lpos: "0 < L" "min L (4096 - off) = 4096 - off" "L - (4096 - off) = L1"
    using big offr by (simp_all add: L1_def)
  have c1: "prp_cover (dma_address sg # E) L = (dma_address sg, 4096 - off) # prp_cover E L1"
    using Lpos by (simp add: off_def [symmetric] NVME_CTRL_PAGE_SIZE_def)
  \<comment> \<open>the pool the list is built in\<close>
  have sm: "small = (length E \<le> 32)"
  proof -
    have "(int (length E) \<le> 32) = (length E \<le> 32)" by linarith
    then show ?thesis
      using cov [THEN conjunct2, THEN conjunct1] by (simp add: small_def)
  qed
  have np0: "(iod_npages iod' = 0) = (length E \<le> 32)"
  proof (cases small)
    case True
    have "ps_i s0 + length (prp_entries (ps_dma_addr s0) (ps_dma_len s0) (ps_length s0) (ps_sg s0))
        \<le> NVME_CTRL_PAGE_SIZE div 8"
      using True sm by (simp add: s0_def E_def [symmetric] NVME_CTRL_PAGE_SIZE_def)
    then have "iod_npages (ps_iod s) = iod_npages (ps_iod s0)"
      using prp_fill_npages [OF fill] by simp
    then show ?thesis using True sm by (simp add: res(2) setup_prps_done_def s0_def iod0_def)
  next
    case False
    have "iod_npages (ps_iod s0) \<le> iod_npages (ps_iod s)"
      using prp_fill_npages [OF fill] by simp
    then show ?thesis using False sm by (simp add: res(2) setup_prps_done_def s0_def iod0_def)
  qed
  have "prp_cover (dma_address sg # E) L = sg_pieces (sg # rest)"
    by (simp only: c1 cov [THEN conjunct1] pieces)
  moreover have "length (sg_pieces (sg # rest)) = Suc (length E)"
    using cov [THEN conjunct2, THEN conjunct2] cov [THEN conjunct1] by (simp add: pieces)
  moreover have "sum_list (map snd (sg_pieces (sg # rest))) = L"
    using sg_pieces_sum [OF wf] total by (simp add: L_def)
  ultimately show ?thesis
    by (simp add: p n walk L_def np0)
qed

lemma prp_fill_step:
  "ps_i s \<noteq> NVME_CTRL_PAGE_SIZE div 8 \<Longrightarrow>
   prp_fill s =
     (if sint (ps_length (prp_store_entry s)) \<le> 0 then Some (BLK_STS_OK, prp_store_entry s)
      else if sint (ps_dma_len (prp_store_entry s)) > 0 then prp_fill (prp_store_entry s)
      else if sint (ps_dma_len (prp_store_entry s)) < 0 then Some (BLK_STS_IOERR, prp_store_entry s)
      else (case tl (ps_sg (prp_store_entry s)) of
              [] \<Rightarrow> None
            | sg # rest \<Rightarrow>
                prp_fill ((prp_store_entry s)\<lparr>ps_sg := sg # rest, ps_dma_addr := dma_address sg,
                             ps_dma_len := dma_length sg\<rparr>)))"
  by (rule prp_fill_unfold) (simp add: next_page_same)

text \<open>
  Three fragments of 0x800, 0x2000 and 0x1000 bytes, the first at 0x1800: the builder
  takes a block of the small pool at 0xA000, and the chain reads back as the four pieces
  of the fragments.
\<close>

theorem C3_prp_chain_witness:
  "map_option (\<lambda>(st, dev, iod).
       (st, prp1 (iod_cmd iod), prp2 (iod_cmd iod), iod_npages iod,
        prp_cover (prp1 (iod_cmd iod) # prp_walk (prp_mem dev) (prp2 (iod_cmd iod)) 3) 0x3800))
     (apple_nvme_setup_prps dev_pools (rq_payload 0x3800) (iod_init\<lparr>iod_sg := sg3\<rparr>))
   = Some (BLK_STS_OK, 0x1800, 0xA000, 0,
           [(0x1800, 0x800), (0x5000, 0x1000), (0x6000, 0x1000), (0x9000, 0x1000)])"
proof -
  define sg where "sg = \<lparr>dma_address = 0x1800, dma_length = 0x800\<rparr>"
  define rest where "rest = [\<lparr>dma_address = 0x5000, dma_length = 0x2000\<rparr>,
          \<lparr>dma_address = 0x9000, dma_length = (0x1000 :: u32)\<rparr>]"
  have sg: "iod_sg (iod_init\<lparr>iod_sg := sg3\<rparr>) = sg # rest"
    by (simp add: sg3_def sg_def rest_def)
  have off: "page_offset (dma_address sg) = 0x800"
    by (simp add: sg_def page_offset_def NVME_CTRL_PAGE_SIZE_def)
  have wf: "sgl_wf (sg # rest)"
    by (simp add: sg_def rest_def page_offset_def NVME_CTRL_PAGE_SIZE_def)
  have total: "sint (payload_bytes (rq_payload 0x3800)) = sg_total (sg # rest)"
    by (simp add: rq_payload_def sg_total_def sg_def rest_def)
  have chain: "2 * int NVME_CTRL_PAGE_SIZE - page_offset (dma_address sg)
      < sint (payload_bytes (rq_payload 0x3800))"
    by (simp add: off rq_payload_def NVME_CTRL_PAGE_SIZE_def)
  have bound: "sint (payload_bytes (rq_payload 0x3800)) \<le> 2 ^ 31 - 4096"
    by (simp add: rq_payload_def)
  have pools: "distinct (prp_small_pool dev_pools)" "distinct (prp_page_pool dev_pools)"
    by (simp_all add: dev_pools_def)
  have "map_option (\<lambda>(st, dev, iod). (st, prp2 (iod_cmd iod)))
      (apple_nvme_setup_prps dev_pools (rq_payload 0x3800) (iod_init\<lparr>iod_sg := sg3\<rparr>))
    = Some (BLK_STS_OK, 0xA000)"
    by (simp add: apple_nvme_setup_prps_def sg3_def rq_payload_def NVME_CTRL_PAGE_SIZE_def
        signed_divide_int_def dma_pool_alloc_def dev_pools_def iod_init_def Let_def prp_fill_step
        prp_store_entry_def setup_prps_done_def)
  then obtain dev' iod' where
    ok: "apple_nvme_setup_prps dev_pools (rq_payload 0x3800) (iod_init\<lparr>iod_sg := sg3\<rparr>)
          = Some (BLK_STS_OK, dev', iod')"
    and p2: "prp2 (iod_cmd iod') = 0xA000"
    by auto
  have n: "prp_nprps 0x3800 0x1800 = 3"
    by (simp add: prp_nprps_def page_offset_def NVME_CTRL_PAGE_SIZE_def)
  have pc: "sg_pieces (sg # rest)
      = [(0x1800, 0x800), (0x5000, 0x1000), (0x6000, 0x1000), (0x9000, 0x1000)]"
    unfolding sg_def rest_def by code_simp
  have l: "sint (payload_bytes (rq_payload 0x3800)) = 0x3800" "dma_address sg = 0x1800"
    by (simp_all add: rq_payload_def sg_def)
  note th = C3_prp_chain_round_trip [OF sg wf total chain bound pools ok]
  have p1: "prp1 (iod_cmd iod') = 0x1800"
    using th [THEN conjunct1] by (simp only: l)
  have cov: "prp_cover (0x1800 # prp_walk (prp_mem dev') 0xA000 3) 0x3800
      = [(0x1800, 0x800), (0x5000, 0x1000), (0x6000, 0x1000), (0x9000, 0x1000)]"
    using th [THEN conjunct2, THEN conjunct1] by (simp only: p1 p2 n pc l)
  have np: "iod_npages iod' = 0"
    using th [THEN conjunct2, THEN conjunct2, THEN conjunct2, THEN conjunct2] by (simp add: l n)
  show ?thesis
    by (simp only: ok option.map prod.case p1 p2 cov np)
qed

text \<open>
  The claim speaks of every fragment list. The builder takes the geometry of the list on
  trust: it leaves the loop as soon as the payload is used up, before it looks at what is
  left of the fragment. On three fragments whose second one ends in the middle of a page,
  it returns \<open>BLK_STS_OK\<close> with a chain that lists the page at 0x6000 in full and
  never lists the third fragment at 0x9000.
\<close>

theorem C3_unaligned_fragment_counterexample:
  "map_option (\<lambda>(st, dev, iod).
       (st, prp1 (iod_cmd iod)
            # prp_walk (prp_mem dev) (prp2 (iod_cmd iod)) (prp_nprps 0x3000 0x1000)))
     (apple_nvme_setup_prps dev_pools (rq_payload 0x3000) (iod_init\<lparr>iod_sg := sg_unaligned\<rparr>))
   = Some (BLK_STS_OK, [0x1000, 0x5000, 0x6000])
   \<and> map fst (sg_pieces sg_unaligned) = [0x1000, 0x5000, 0x6000, 0x9000]
   \<and> sg_total sg_unaligned = 0x3000"
proof -
  have n: "prp_nprps 0x3000 0x1000 = 2"
    by (simp add: prp_nprps_def page_offset_def NVME_CTRL_PAGE_SIZE_def)
  have run: "map_option (\<lambda>(st, dev, iod).
       (st, prp1 (iod_cmd iod) # prp_walk (prp_mem dev) (prp2 (iod_cmd iod)) 2))
     (apple_nvme_setup_prps dev_pools (rq_payload 0x3000) (iod_init\<lparr>iod_sg := sg_unaligned\<rparr>))
   = Some (BLK_STS_OK, [0x1000, 0x5000, 0x6000])"
    by (simp add: apple_nvme_setup_prps_def sg_unaligned_def rq_payload_def NVME_CTRL_PAGE_SIZE_def
        signed_divide_int_def dma_pool_alloc_def dev_pools_def iod_init_def Let_def prp_fill_step
        prp_store_entry_def setup_prps_done_def prp_walk_fits numeral_2_eq_2)
  have pc: "map fst (sg_pieces sg_unaligned) = [0x1000, 0x5000, 0x6000, 0x9000]"
    unfolding sg_unaligned_def by code_simp
  have t: "sg_total sg_unaligned = 0x3000"
    by (simp add: sg_total_def sg_unaligned_def)
  show ?thesis by (simp only: n run pc t simp_thms)
qed

lemma u32_page_offset: "unat ((x :: u32) AND 4095) = unat x mod 4096"
proof -
  have "x AND 4095 = x AND mask 12" by (simp add: mask_eq_exp_minus_1)
  then have "uint (x AND 4095) = uint x mod 2 ^ 12"
    by (simp add: and_mask_mod_2p uint_word_of_int)
  then have "nat (uint (x AND 4095)) = nat (uint x mod 4096)" by simp
  then show ?thesis by (simp add: nat_mod_distrib)
qed

lemma u32_first_prp_len: "unat (4096 - ((x :: u32) AND 4095)) = 4096 - unat x mod 4096"
proof -
  have "unat (x AND 4095) \<le> 4095" by (simp add: u32_page_offset)
  then have "(x AND 4095) \<le> 4096" by (simp add: word_le_nat_alt)
  then have "unat (4096 - (x AND 4095)) = unat (4096 :: u32) - unat (x AND 4095)"
    by (rule unat_sub)
  then show ?thesis by (simp add: u32_page_offset)
qed

lemma setup_prp_simple_result:
  "apple_nvme_setup_prp_simple env dev iod bv =
     (if dma_mapping_error (dma_map_bvec env bv)
      then (BLK_STS_RESOURCE, dev, iod\<lparr>iod_first_dma := dma_map_bvec env bv\<rparr>)
      else (BLK_STS_OK, dev,
            iod\<lparr>iod_first_dma := dma_map_bvec env bv, iod_dma_len := bv_len bv,
                iod_cmd := (if NVME_CTRL_PAGE_SIZE - unat (bv_offset bv) mod NVME_CTRL_PAGE_SIZE
                               < unat (bv_len bv)
                            then (iod_cmd iod)\<lparr>prp1 := dma_map_bvec env bv,
                                   prp2 := dma_map_bvec env bv
                                     + of_nat (NVME_CTRL_PAGE_SIZE
                                               - unat (bv_offset bv) mod NVME_CTRL_PAGE_SIZE)\<rparr>
                            else (iod_cmd iod)\<lparr>prp1 := dma_map_bvec env bv\<rparr>)\<rparr>))"
proof -
  have l: "bv_len bv > 4096 - (bv_offset bv AND 4095)
      \<longleftrightarrow> 4096 - unat (bv_offset bv) mod 4096 < unat (bv_len bv)"
    by (simp add: word_less_nat_alt u32_first_prp_len)
  have u: "(ucast (4096 - (bv_offset bv AND 4095)) :: u64)
      = of_nat (4096 - unat (bv_offset bv) mod 4096)"
    using u32_first_prp_len [of "bv_offset bv"] by (metis of_nat_unat)
  show ?thesis
    by (simp add: apple_nvme_setup_prp_simple_def Let_def NVME_CTRL_PAGE_SIZE_def l u)
qed

lemma map_data_simple_path:
  assumes "nr_phys_segments req = 1"
    and "unat (bv_offset (rq_bvec req)) + unat (bv_len (rq_bvec req)) \<le> 2 * NVME_CTRL_PAGE_SIZE"
  shows "apple_nvme_map_data env dev req iod =
     Some (apple_nvme_setup_prp_simple env dev iod (rq_bvec req))"
proof -
  have "unat (bv_offset (rq_bvec req)) + unat (bv_len (rq_bvec req)) < 2 ^ LENGTH(32)"
    using assms(2) by (simp add: NVME_CTRL_PAGE_SIZE_def)
  then have "unat (bv_offset (rq_bvec req) + bv_len (rq_bvec req))
      = unat (bv_offset (rq_bvec req)) + unat (bv_len (rq_bvec req))"
    by (rule unat_add_lem [THEN iffD1])
  then have "bv_offset (rq_bvec req) + bv_len (rq_bvec req) \<le> 8192"
    using assms(2) by (simp add: word_le_nat_alt NVME_CTRL_PAGE_SIZE_def)
  then show ?thesis
    using assms(1) by (simp add: apple_nvme_map_data_def NVME_CTRL_PAGE_SIZE_def)
qed

text \<open>
  Claim C4. For a request of one physical segment whose offset plus length is at most two
  controller pages, \<open>apple_nvme_map_data\<close> is \<open>apple_nvme_setup_prp_simple\<close>: the
  device state comes back as it was (no block is taken from a pool, no table from the
  mempool, the chain memory is untouched), and when the DMA mapping succeeds the status
  is \<open>BLK_STS_OK\<close>, \<open>prp1\<close> is the mapped address, and \<open>prp2\<close> is the mapped address
  plus the bytes left in the first page exactly when the fragment is longer than those
  bytes; otherwise \<open>prp2\<close> keeps its value.
\<close>

theorem C4_single_fragment_simple_path:
  assumes "nr_phys_segments req = 1"
    and "unat (bv_offset (rq_bvec req)) + unat (bv_len (rq_bvec req)) \<le> 2 * NVME_CTRL_PAGE_SIZE"
  shows "apple_nvme_map_data env dev req iod =
       Some (apple_nvme_setup_prp_simple env dev iod (rq_bvec req))
     \<and> fst (snd (apple_nvme_setup_prp_simple env dev iod (rq_bvec req))) = dev
     \<and> (\<not> dma_mapping_error (dma_map_bvec env (rq_bvec req)) \<longrightarrow>
          fst (apple_nvme_setup_prp_simple env dev iod (rq_bvec req)) = BLK_STS_OK
        \<and> prp1 (iod_cmd (snd (snd (apple_nvme_setup_prp_simple env dev iod (rq_bvec req)))))
            = dma_map_bvec env (rq_bvec req)
        \<and> prp2 (iod_cmd (snd (snd (apple_nvme_setup_prp_simple env dev iod (rq_bvec req)))))
            = (if NVME_CTRL_PAGE_SIZE - unat (bv_offset (rq_bvec req)) mod NVME_CTRL_PAGE_SIZE
                    < unat (bv_len (rq_bvec req))
               then dma_map_bvec env (rq_bvec req)
                    + of_nat (NVME_CTRL_PAGE_SIZE
                              - unat (bv_offset (rq_bvec req)) mod NVME_CTRL_PAGE_SIZE)
               else prp2 (iod_cmd iod)))"
  using map_data_simple_path [OF assms] by (simp add: setup_prp_simple_result)

text \<open>0x1000 bytes at offset 0x200, mapped at 0x7200: the second pointer is 0x8000.\<close>

theorem C4_single_fragment_witness:
  "map_option (\<lambda>(st, dev, iod). (st, dev = dev_pools, prp1 (iod_cmd iod), prp2 (iod_cmd iod)))
     (apple_nvme_map_data env0 dev_pools rq_two_pages iod_init)
   = Some (BLK_STS_OK, True, 0x7200, 0x8000)"
proof -
  have h: "nr_phys_segments rq_two_pages = 1"
    "unat (bv_offset (rq_bvec rq_two_pages)) + unat (bv_len (rq_bvec rq_two_pages))
       \<le> 2 * NVME_CTRL_PAGE_SIZE"
    by (simp_all add: rq_two_pages_def NVME_CTRL_PAGE_SIZE_def)
  have m: "dma_map_bvec env0 (rq_bvec rq_two_pages) = 0x7200"
    "\<not> dma_mapping_error (dma_map_bvec env0 (rq_bvec rq_two_pages))"
    "unat (bv_offset (rq_bvec rq_two_pages)) = 0x200" "unat (bv_len (rq_bvec rq_two_pages)) = 0x1000"
    by (simp_all add: env0_def rq_two_pages_def dma_mapping_error_def DMA_MAPPING_ERROR_def)
  show ?thesis
    using C4_single_fragment_simple_path [OF h, of env0 dev_pools iod_init] m
    by (cases "apple_nvme_setup_prp_simple env0 dev_pools iod_init (rq_bvec rq_two_pages)")
      (simp add: NVME_CTRL_PAGE_SIZE_def)
qed

text \<open>
  Claim C10. In the simple path, when the fragment is no longer than the bytes left in
  its first controller page, the builder leaves \<open>prp2\<close> as it was: the command it
  leaves is the command it found with \<open>prp1\<close> set to the mapped address (and the
  command it found, when the mapping fails).
\<close>

theorem C10_one_page_only_prp1:
  assumes "unat (bv_len bv) \<le> NVME_CTRL_PAGE_SIZE - unat (bv_offset bv) mod NVME_CTRL_PAGE_SIZE"
  shows "prp2 (iod_cmd (snd (snd (apple_nvme_setup_prp_simple env dev iod bv)))) = prp2 (iod_cmd iod)
     \<and> iod_cmd (snd (snd (apple_nvme_setup_prp_simple env dev iod bv)))
       = (if dma_mapping_error (dma_map_bvec env bv) then iod_cmd iod
          else (iod_cmd iod)\<lparr>prp1 := dma_map_bvec env bv\<rparr>)"
  using assms by (simp add: setup_prp_simple_result)

text \<open>0x400 bytes at offset 0x200: \<open>prp2\<close> keeps the value 0x42 it had.\<close>

theorem C10_one_page_witness:
  "map_option (\<lambda>(st, dev, iod). (st, iod_cmd iod))
     (apple_nvme_map_data env0 dev_pools rq_one_page (iod_init\<lparr>iod_cmd := cmd5\<lparr>prp2 := 0x42\<rparr>\<rparr>))
   = Some (BLK_STS_OK, cmd5\<lparr>prp1 := 0x7200, prp2 := 0x42\<rparr>)"
proof -
  have h: "nr_phys_segments rq_one_page = 1"
    "unat (bv_offset (rq_bvec rq_one_page)) + unat (bv_len (rq_bvec rq_one_page))
       \<le> 2 * NVME_CTRL_PAGE_SIZE"
    by (simp_all add: rq_one_page_def NVME_CTRL_PAGE_SIZE_def)
  have a: "unat (bv_len (rq_bvec rq_one_page))
      \<le> NVME_CTRL_PAGE_SIZE - unat (bv_offset (rq_bvec rq_one_page)) mod NVME_CTRL_PAGE_SIZE"
    by (simp add: rq_one_page_def NVME_CTRL_PAGE_SIZE_def)
  have m: "dma_map_bvec env0 (rq_bvec rq_one_page) = 0x7200"
    "\<not> dma_mapping_error (dma_map_bvec env0 (rq_bvec rq_one_page))"
    by (simp_all add: env0_def rq_one_page_def dma_mapping_error_def DMA_MAPPING_ERROR_def)
  have s: "fst (apple_nvme_setup_prp_simple env0 dev_pools (iod_init\<lparr>iod_cmd := cmd5\<lparr>prp2 := 0x42\<rparr>\<rparr>)
      (rq_bvec rq_one_page)) = BLK_STS_OK"
    using m by (simp add: setup_prp_simple_result)
  show ?thesis
    using C10_one_page_only_prp1 [OF a, of env0 dev_pools "iod_init\<lparr>iod_cmd := cmd5\<lparr>prp2 := 0x42\<rparr>\<rparr>"]
      m s
    by (cases "apple_nvme_setup_prp_simple env0 dev_pools (iod_init\<lparr>iod_cmd := cmd5\<lparr>prp2 := 0x42\<rparr>\<rparr>)
          (rq_bvec rq_one_page)")
      (simp add: map_data_simple_path [OF h] cmd5_def cmd_zero_def)
qed

text \<open>
  Claim C1, as the code has it. A request submitted to a queue whose \<open>NVMEQ_ENABLED\<close>
  flag is cleared is rejected with \<open>BLK_STS_IOERR\<close>, the hard I/O error (the code keeps
  this check "to ensure we can drain requests on a dying queue"), and is left
  unsubmitted: the device state, with its tracking table, its rings and its trace of
  device-visible accesses, is unchanged, and the iod only has its three bookkeeping
  fields reset.
\<close>

theorem C1_disabled_queue_io_error:
  assumes "\<not> bit (flags (get_q dev sel)) NVMEQ_ENABLED"
  shows "apple_nvme_queue_rq nc env dev sel req iod =
     Some (BLK_STS_IOERR, dev, iod\<lparr>iod_aborted := 0, iod_npages := - 1, iod_nents := 0\<rparr>)"
  using assms by (simp add: apple_nvme_queue_rq_def Let_def)

text \<open>The I/O queue suspended: the request comes back with the I/O error and nothing
  has reached the device.\<close>

theorem C1_disabled_queue_witness:
  "apple_nvme_queue_rq nc0 env0 dev_suspended IOQ rq_one_page iod_init =
     Some (BLK_STS_IOERR, dev_suspended, iod_init)
   \<and> hw dev_suspended = []"
proof -
  have "\<not> bit (flags (get_q dev_suspended IOQ)) NVMEQ_ENABLED"
    by (simp add: dev_suspended_def get_q_def NVMEQ_ENABLED_def)
  from C1_disabled_queue_io_error [OF this, of nc0 env0 rq_one_page iod_init]
  show ?thesis by (simp add: iod_init_def dev_suspended_def dev0_def)
qed

text \<open>
  The claim promises a not-ready error, distinct from a hard I/O error. On the suspended
  I/O queue the status is \<open>BLK_STS_IOERR\<close>, and it is not the status the not-ready path
  (\<open>nvme_fail_nonready_command\<close>) would have returned.
\<close>

theorem C1_not_ready_counterexample:
  "\<not> bit (flags (get_q dev_suspended IOQ)) NVMEQ_ENABLED
   \<and> map_option fst (apple_nvme_queue_rq nc0 env0 dev_suspended IOQ rq_one_page iod_init)
     = Some BLK_STS_IOERR
   \<and> map_option fst (apple_nvme_queue_rq nc0 env0 dev_suspended IOQ rq_one_page iod_init)
     \<noteq> Some (nvme_fail_nonready_command env0)"
  by (simp add: apple_nvme_queue_rq_def Let_def dev_suspended_def get_q_def NVMEQ_ENABLED_def
      env0_def)

end
